theory Spec2Isabelle
  imports Main "HOL-Library.AList"
begin

section \<open>Python values, errors and the store\<close>

text \<open>
  The values that travel through \<^verbatim>\<open>requests/sessions.py\<close>. A dictionary is an
  association list in insertion order; a Python dictionary has each key once, which is
  the predicate \<open>distinct (map fst d)\<close>. Every mapping of this module (headers, hook
  events, cookie names, proxy schemes, configuration options, attribute names) is keyed
  by strings. \<open>PDict\<close> is a dictionary that nothing else refers to; \<open>PRef r\<close> is a
  dictionary object that the caller still holds, stored at address \<open>r\<close>; \<open>PJar j\<close>
  is a cookie jar object at address \<open>j\<close>. \<open>PPairs\<close> is a sequence of 2-tuples,
  \<open>PFun\<close> a callable, \<open>PPool\<close> a \<^verbatim>\<open>PoolManager(num_pools, maxsize)\<close>.
\<close>

datatype pyval =
    PNone
  | PStr string
  | PInt int
  | PBool bool
  | PList "pyval list"
  | PPairs "(string \<times> pyval) list"
  | PDict "(string \<times> pyval) list"
  | PRef nat
  | PJar nat
  | PFun nat
  | PPool pyval pyval

type_synonym dict = "(string \<times> pyval) list"

datatype error =
    TypeKind
  | KeyErrorKind
  | AttributeError
  | TypeError
  | TransportError string

record cookie =
  name :: string
  cvalue :: pyval
  domain :: string
  path :: string

type_synonym jar = "cookie list"

record heap =
  dicts :: "nat \<Rightarrow> dict"
  jars :: "nat \<Rightarrow> jar"
  next_jar :: nat

section \<open>Dictionary operations\<close>

definition has_key :: "dict \<Rightarrow> string \<Rightarrow> bool" where
  "has_key d k = (k \<in> fst ` set d)"

text \<open>\<^verbatim>\<open>d.setdefault(k, v)\<close>: a key that is present keeps its value.\<close>

definition setdefault :: "dict \<Rightarrow> string \<Rightarrow> pyval \<Rightarrow> dict" where
  "setdefault d k v = (if has_key d k then d else d @ [(k, v)])"

text \<open>\<^verbatim>\<open>d.update(items)\<close>: every item is stored, in order.\<close>

definition dict_update :: "dict \<Rightarrow> (string \<times> pyval) list \<Rightarrow> dict" where
  "dict_update d its = fold (\<lambda>(k, v) acc. AList.update k v acc) its d"

text \<open>\<^verbatim>\<open>del d[k]\<close> raises \<^verbatim>\<open>KeyError\<close> on a key that is not there.\<close>

definition dict_del :: "dict \<Rightarrow> string \<Rightarrow> error + dict" where
  "dict_del d k = (if has_key d k then Inr (AList.delete k d) else Inl KeyErrorKind)"

text \<open>The dictionary behind a value, when the value is one.\<close>

definition dict_view :: "heap \<Rightarrow> pyval \<Rightarrow> dict option" where
  "dict_view h v = (case v of PDict d \<Rightarrow> Some d | PRef r \<Rightarrow> Some (dicts h r) | _ \<Rightarrow> None)"

section \<open>The key/value normalizer\<close>

text \<open>
  Modelled from the spec: \<^verbatim>\<open>from_key_val_list\<close> of \<^verbatim>\<open>requests/utils.py\<close>, which is
  not among the sources. Section 4.1: an absent input gives the empty mapping, a
  mapping is returned as it is (not copied), a sequence of pairs is built into a mapping
  that keeps the first-seen order of the keys, and any other shape fails with
  \<open>TypeKind\<close>. The empty list is the empty sequence of pairs.
\<close>

definition from_key_val_list :: "pyval \<Rightarrow> error + pyval" where
  "from_key_val_list v =
     (case v of
        PNone \<Rightarrow> Inr (PDict [])
      | PDict d \<Rightarrow> Inr (PDict d)
      | PRef r \<Rightarrow> Inr (PRef r)
      | PPairs ps \<Rightarrow> Inr (PDict (dict_update [] ps))
      | PList xs \<Rightarrow> (if xs = [] then Inr (PDict []) else Inl TypeKind)
      | _ \<Rightarrow> Inl TypeKind)"

section \<open>merge_kwargs\<close>

text \<open>\<^verbatim>\<open>hasattr(v, 'items')\<close>: the dictionaries are the values with items.\<close>

definition has_items :: "pyval \<Rightarrow> bool" where
  "has_items v = (case v of PDict _ \<Rightarrow> True | PRef _ \<Rightarrow> True | _ \<Rightarrow> False)"

definition is_str :: "pyval \<Rightarrow> bool" where
  "is_str v = (case v of PStr _ \<Rightarrow> True | _ \<Rightarrow> False)"

text \<open>
  Lines 49 to 52: \<^verbatim>\<open>for (k, v) in local_kwarg.items(): if v is None: del kwargs[k]\<close>.
\<close>

fun remove_none :: "(string \<times> pyval) list \<Rightarrow> dict \<Rightarrow> error + dict" where
  "remove_none [] kwargs = Inr kwargs"
| "remove_none ((k, v) # its) kwargs =
     (if v = PNone
      then (case dict_del kwargs k of
              Inl e \<Rightarrow> Inl e
            | Inr kwargs' \<Rightarrow> remove_none its kwargs')
      else remove_none its kwargs)"

text \<open>Lines 45 to 54, on the two normalized dictionaries.\<close>

definition overlay :: "dict \<Rightarrow> dict \<Rightarrow> error + dict" where
  "overlay local_kwarg default_kwarg =
     remove_none local_kwarg (dict_update default_kwarg local_kwarg)"

definition merge_kwargs :: "heap \<Rightarrow> pyval \<Rightarrow> pyval \<Rightarrow> error + pyval" where
  "merge_kwargs h local_kwarg default_kwarg =
     (if default_kwarg = PNone then Inr local_kwarg
      else if is_str local_kwarg then Inr local_kwarg
      else if local_kwarg = PNone then Inr default_kwarg
      else if \<not> has_items default_kwarg then Inr local_kwarg
      else
        (case from_key_val_list default_kwarg of
           Inl e \<Rightarrow> Inl e
         | Inr dv \<Rightarrow>
             (case from_key_val_list local_kwarg of
                Inl e \<Rightarrow> Inl e
              | Inr lv \<Rightarrow>
                  (case (dict_view h lv, dict_view h dv) of
                     (Some l, Some d) \<Rightarrow>
                        (case overlay l d of
                           Inl e \<Rightarrow> Inl e
                         | Inr kwargs \<Rightarrow> Inr (PDict kwargs))
                   | _ \<Rightarrow> Inl TypeKind))))"

text \<open>A dictionary value is well formed when its keys are pairwise different.\<close>

definition well_formed :: "heap \<Rightarrow> pyval \<Rightarrow> bool" where
  "well_formed h v = (case dict_view h v of Some d \<Rightarrow> distinct (map fst d) | None \<Rightarrow> True)"

text \<open>A store with nothing allocated, for the concrete runs.\<close>

definition heap0 :: heap where
  "heap0 = \<lparr>dicts = (\<lambda>_. []), jars = (\<lambda>_. []), next_jar = 0\<rparr>"

section \<open>Cookie jars\<close>

text \<open>
  Modelled from the spec: the cookie jar of \<^verbatim>\<open>requests/cookies.py\<close> and
  \<^verbatim>\<open>cookielib\<close>, which are not among the sources. Sections 3 and 4.2: a jar is a
  collection of cookies keyed by (name, domain, path), iterated in insertion order;
  \<open>set_cookie\<close> is an upsert by key; \<open>remove_cookie_by_name\<close> deletes every cookie
  of that name, whatever its domain and path; \<open>cookiejar_from_dict\<close> builds a new
  jar with one cookie per entry of the mapping, at the default domain and path (an absent
  mapping gives the empty jar).
\<close>

definition same_key :: "cookie \<Rightarrow> cookie \<Rightarrow> bool" where
  "same_key c c' = (name c = name c' \<and> domain c = domain c' \<and> path c = path c')"

definition cookie_key :: "cookie \<Rightarrow> string \<times> string \<times> string" where
  "cookie_key c = (name c, domain c, path c)"

fun set_cookie :: "jar \<Rightarrow> cookie \<Rightarrow> jar" where
  "set_cookie [] c = [c]"
| "set_cookie (x # xs) c = (if same_key x c then c # xs else x # set_cookie xs c)"

definition remove_cookie_by_name :: "jar \<Rightarrow> string \<Rightarrow> jar" where
  "remove_cookie_by_name j n = filter (\<lambda>c. name c \<noteq> n) j"

definition default_domain :: string where
  "default_domain = []"

definition default_path :: string where
  "default_path = ''/''"

definition create_cookie :: "string \<Rightarrow> pyval \<Rightarrow> cookie" where
  "create_cookie n v = \<lparr>name = n, cvalue = v, domain = default_domain, path = default_path\<rparr>"

definition jar_of_dict :: "dict \<Rightarrow> jar" where
  "jar_of_dict d = fold (\<lambda>(n, v) j. set_cookie j (create_cookie n v)) d []"

text \<open>A new object takes the next free address of the store.\<close>

definition alloc_jar :: "heap \<Rightarrow> jar \<Rightarrow> heap \<times> nat" where
  "alloc_jar h j = (h\<lparr>jars := (jars h)(next_jar h := j), next_jar := Suc (next_jar h)\<rparr>, next_jar h)"

definition cookiejar_from_dict :: "heap \<Rightarrow> pyval \<Rightarrow> heap \<times> (error + nat)" where
  "cookiejar_from_dict h cookie_dict =
     (if cookie_dict = PNone then (case alloc_jar h [] of (h', j) \<Rightarrow> (h', Inr j))
      else (case dict_view h cookie_dict of
              None \<Rightarrow> (h, Inl TypeKind)
            | Some d \<Rightarrow> (case alloc_jar h (jar_of_dict d) of (h', j) \<Rightarrow> (h', Inr j))))"

text \<open>The two jar operations on a jar object of the store.\<close>

definition jar_set_cookie :: "heap \<Rightarrow> nat \<Rightarrow> cookie \<Rightarrow> heap" where
  "jar_set_cookie h j c = h\<lparr>jars := (jars h)(j := set_cookie (jars h j) c)\<rparr>"

definition jar_remove_by_name :: "heap \<Rightarrow> nat \<Rightarrow> string \<Rightarrow> heap" where
  "jar_remove_by_name h j n = h\<lparr>jars := (jars h)(j := remove_cookie_by_name (jars h j) n)\<rparr>"

text \<open>The (name, value) pairs of a jar, in its order.\<close>

definition jar_items :: "jar \<Rightarrow> (string \<times> pyval) list" where
  "jar_items j = map (\<lambda>c. (name c, cvalue c)) j"

section \<open>Sessions\<close>

text \<open>
  A \<^verbatim>\<open>Session\<close> object is its attribute dictionary. Reading an attribute that was
  never set raises \<^verbatim>\<open>AttributeError\<close>; \<^verbatim>\<open>getattr(self, attr, None)\<close> gives None
  instead.
\<close>

type_synonym session = dict

definition getattr :: "session \<Rightarrow> string \<Rightarrow> error + pyval" where
  "getattr s a = (case map_of s a of None \<Rightarrow> Inl AttributeError | Some v \<Rightarrow> Inr v)"

definition getattr_default :: "session \<Rightarrow> string \<Rightarrow> pyval \<Rightarrow> pyval" where
  "getattr_default s a dflt = (case map_of s a of None \<Rightarrow> dflt | Some v \<Rightarrow> v)"

definition setattr :: "session \<Rightarrow> string \<Rightarrow> pyval \<Rightarrow> session" where
  "setattr s a v = AList.update a v s"

text \<open>\<^verbatim>\<open>d.get(k)\<close>: None for a key that is not there.\<close>

definition dict_get :: "dict \<Rightarrow> string \<Rightarrow> pyval" where
  "dict_get d k = (case map_of d k of None \<Rightarrow> PNone | Some v \<Rightarrow> v)"

text \<open>Lines 64 to 66.\<close>

definition attrs :: "string list" where
  "attrs = [''headers'', ''cookies'', ''auth'', ''timeout'', ''proxies'', ''hooks'',
            ''params'', ''config'', ''verify'', ''cert'', ''prefetch'']"

text \<open>
  Lines 143 to 147. \<^verbatim>\<open>self.config.get\<close> needs a dictionary. The pool manager of
  urllib3 is an opaque handle built from the two numbers.
\<close>

definition init_poolmanager :: "heap \<Rightarrow> session \<Rightarrow> error + session" where
  "init_poolmanager h s =
     (case getattr s ''config'' of
        Inl e \<Rightarrow> Inl e
      | Inr c \<Rightarrow>
          (case dict_view h c of
             None \<Rightarrow> Inl AttributeError
           | Some d \<Rightarrow>
               Inr (setattr s ''poolmanager''
                      (PPool (dict_get d ''pool_connections'') (dict_get d ''pool_maxsize'')))))"

text \<open>Lines 428 and 429: the snapshot is a new dictionary with one entry per tracked attribute.\<close>

definition getstate :: "session \<Rightarrow> dict" where
  "getstate s = dict_update [] (map (\<lambda>attr. (attr, getattr_default s attr PNone)) attrs)"

text \<open>
  Lines 431 to 435, on the object \<open>s\<close> that is being restored (unpickling starts from
  an object with no attribute).
\<close>

definition setstate :: "heap \<Rightarrow> session \<Rightarrow> dict \<Rightarrow> error + session" where
  "setstate h s state = init_poolmanager h (fold (\<lambda>(attr, v) s'. setattr s' attr v) state s)"

section \<open>The collaborators of a session\<close>

text \<open>
  A request descriptor holds the resolved arguments and the session it came from; a
  response carries an error or a payload.
\<close>

record request_obj =
  req_args :: dict
  req_session :: session

record response =
  resp_error :: "error option"
  payload :: pyval

datatype outcome = Unsent request_obj | Sent response

text \<open>
  What the module takes from outside: \<^verbatim>\<open>header_expand\<close> of \<^verbatim>\<open>requests/utils.py\<close>,
  the callables registered as hooks (a callable gets the hook data and returns new data,
  or None to leave the data as they are, or raises), the \<^verbatim>\<open>send\<close> of a request,
  and the process-wide safe mode flag.
\<close>

record env =
  header_expand :: "pyval \<Rightarrow> pyval"
  call_hook :: "nat \<Rightarrow> dict \<Rightarrow> error + dict option"
  send :: "request_obj \<Rightarrow> pyval \<Rightarrow> error + response"
  safe_mode :: bool

text \<open>
  Modelled from the spec: \<^verbatim>\<open>dispatch_hook\<close> of \<^verbatim>\<open>requests/hooks.py\<close>, which is not
  among the sources. Sections 4.4 (step 7) and 6: the handlers registered for the event
  run in sequence in one pass, each on the output of the one before; a handler may leave
  the data unchanged.
\<close>

fun run_hooks :: "env \<Rightarrow> pyval list \<Rightarrow> dict \<Rightarrow> error + dict" where
  "run_hooks ev [] hook_data = Inr hook_data"
| "run_hooks ev (PFun f # hs) hook_data =
     (case call_hook ev f hook_data of
        Inl e \<Rightarrow> Inl e
      | Inr None \<Rightarrow> run_hooks ev hs hook_data
      | Inr (Some hook_data') \<Rightarrow> run_hooks ev hs hook_data')"
| "run_hooks ev (_ # hs) hook_data = Inl TypeError"

definition dispatch_hook :: "env \<Rightarrow> heap \<Rightarrow> string \<Rightarrow> pyval \<Rightarrow> dict \<Rightarrow> error + dict" where
  "dispatch_hook ev h key hks hook_data =
     (case dict_view h hks of
        None \<Rightarrow> Inr hook_data
      | Some d \<Rightarrow>
          (case map_of d key of
             None \<Rightarrow> Inr hook_data
           | Some (PFun f) \<Rightarrow> run_hooks ev [PFun f] hook_data
           | Some (PList fs) \<Rightarrow> run_hooks ev fs hook_data
           | Some _ \<Rightarrow> Inl TypeError))"

text \<open>
  Modelled from the spec: \<^verbatim>\<open>catch_exceptions_if_in_safe_mode\<close> of
  \<^verbatim>\<open>requests/safe_mode.py\<close>, which is not among the sources. Section 7: with safe mode
  active the transport error is caught and a response that carries the error is
  returned; with safe mode inactive the transport error propagates.
\<close>

definition catch_exceptions_if_in_safe_mode :: "env \<Rightarrow> error + response \<Rightarrow> error + response" where
  "catch_exceptions_if_in_safe_mode ev res =
     (if safe_mode ev
      then (case res of
              Inl (TransportError m) \<Rightarrow>
                Inr \<lparr>resp_error = Some (TransportError m), payload = PNone\<rparr>
            | _ \<Rightarrow> res)
      else res)"

text \<open>Lines 313 to 319.\<close>

definition send_request :: "env \<Rightarrow> request_obj \<Rightarrow> dict \<Rightarrow> error + response" where
  "send_request ev r kwargs =
     catch_exceptions_if_in_safe_mode ev (send ev r (dict_get kwargs ''prefetch''))"

section \<open>Session.request\<close>

text \<open>The parameters of \<^verbatim>\<open>request\<close> after \<^verbatim>\<open>method\<close> and \<^verbatim>\<open>url\<close> (lines 170 to 185).\<close>

record call_args =
  params :: pyval
  data :: pyval
  headers :: pyval
  cookies :: pyval
  files :: pyval
  auth :: pyval
  timeout :: pyval
  allow_redirects :: pyval
  proxies :: pyval
  hooks :: pyval
  return_response :: pyval
  config :: pyval
  prefetch :: pyval
  verify :: pyval
  cert :: pyval

text \<open>The truth value Python gives a value.\<close>

definition truthy :: "heap \<Rightarrow> pyval \<Rightarrow> bool" where
  "truthy h v =
     (case v of
        PNone \<Rightarrow> False
      | PStr s \<Rightarrow> s \<noteq> []
      | PInt i \<Rightarrow> i \<noteq> 0
      | PBool b \<Rightarrow> b
      | PList xs \<Rightarrow> xs \<noteq> []
      | PPairs ps \<Rightarrow> ps \<noteq> []
      | PDict d \<Rightarrow> d \<noteq> []
      | PRef r \<Rightarrow> dicts h r \<noteq> []
      | PJar j \<Rightarrow> jars h j \<noteq> []
      | PFun f \<Rightarrow> True
      | PPool a b \<Rightarrow> True)"

text \<open>\<^verbatim>\<open>str.upper\<close> on the ASCII letters.\<close>

definition upper_char :: "char \<Rightarrow> char" where
  "upper_char c =
     (let n = (of_char c :: nat) in if 97 \<le> n \<and> n \<le> 122 then char_of (n - 32) else c)"

definition upper :: "string \<Rightarrow> string" where
  "upper s = map upper_char s"

text \<open>
  Writing a dictionary back: a dictionary the caller holds is changed in the store, a
  dictionary nobody else holds is a new value.
\<close>

definition store_dict :: "heap \<Rightarrow> pyval \<Rightarrow> dict \<Rightarrow> heap \<times> pyval" where
  "store_dict h v d =
     (case v of
        PRef r \<Rightarrow> (h\<lparr>dicts := (dicts h)(r := d)\<rparr>, PRef r)
      | _ \<Rightarrow> (h, PDict d))"

text \<open>
  Lines 239 to 241: \<^verbatim>\<open>for key, cb in list(self.hooks.items()): hooks.setdefault(key, cb)\<close>.
  \<open>seeded its d\<close> is the dictionary \<open>d\<close> after the loop over the items \<open>its\<close>.
  The items of the session's hooks are read first; \<^verbatim>\<open>setdefault\<close> is a method of
  dictionaries only, and it is called once per item.
\<close>

definition seeded :: "dict \<Rightarrow> dict \<Rightarrow> dict" where
  "seeded its d = fold (\<lambda>(key, cb) acc. setdefault acc key cb) its d"

definition seed_hooks :: "heap \<Rightarrow> pyval \<Rightarrow> pyval \<Rightarrow> heap \<times> (error + pyval)" where
  "seed_hooks h hks session_hooks =
     (case dict_view h session_hooks of
        None \<Rightarrow> (h, Inl AttributeError)
      | Some its \<Rightarrow>
          (if its = [] then (h, Inr hks)
           else (case dict_view h hks of
                   None \<Rightarrow> (h, Inl AttributeError)
                 | Some d \<Rightarrow>
                     (case store_dict h hks (seeded its d) of
                        (h', hks') \<Rightarrow> (h', Inr hks')))))"

text \<open>
  Lines 243 to 246: \<^verbatim>\<open>if headers: for k, v in list(headers.items() or {}): headers[k] = header_expand(v)\<close>.
\<close>

definition expand_headers :: "env \<Rightarrow> heap \<Rightarrow> pyval \<Rightarrow> heap \<times> (error + pyval)" where
  "expand_headers ev h hdrs =
     (if truthy h hdrs
      then (case dict_view h hdrs of
              None \<Rightarrow> (h, Inl AttributeError)
            | Some d \<Rightarrow>
                (case store_dict h hdrs
                        (fold (\<lambda>(k, v) acc. AList.update k (header_expand ev v) acc) d d) of
                   (h', hdrs') \<Rightarrow> (h', Inr hdrs')))
      else (h, Inr hdrs))"

text \<open>
  Sequencing: a step that raises ends the call with its error; the store keeps what the
  steps before it wrote.
\<close>

definition bindE :: "error + 'a \<Rightarrow> ('a \<Rightarrow> error + 'b) \<Rightarrow> error + 'b" where
  "bindE m f = (case m of Inl e \<Rightarrow> Inl e | Inr x \<Rightarrow> f x)"

definition bindH :: "heap \<times> (error + 'a) \<Rightarrow> (heap \<Rightarrow> 'a \<Rightarrow> heap \<times> (error + 'b)) \<Rightarrow> heap \<times> (error + 'b)" where
  "bindH m f = (case m of (h, Inl e) \<Rightarrow> (h, Inl e) | (h, Inr x) \<Rightarrow> f h x)"

text \<open>
  Lines 248 to 266: the provisional arguments, from the local variables of the call
  (here the fields of \<open>ca\<close>). The keyword arguments of \<^verbatim>\<open>dict(...)\<close> are evaluated
  in order, so the first failing normalization is the error of the call.
\<close>

definition build_args :: "session \<Rightarrow> string \<Rightarrow> string \<Rightarrow> call_args \<Rightarrow> error + dict" where
  "build_args s method url ca =
     bindE (from_key_val_list (params ca)) (\<lambda>params'.
     bindE (from_key_val_list (headers ca)) (\<lambda>headers'.
     bindE (from_key_val_list (hooks ca)) (\<lambda>hooks'.
     bindE (from_key_val_list (proxies ca)) (\<lambda>proxies'.
     bindE (from_key_val_list (config ca)) (\<lambda>config'.
     bindE (getattr s ''poolmanager'') (\<lambda>poolmanager.
       Inr [(''method'', PStr method),
            (''url'', PStr url),
            (''data'', data ca),
            (''params'', params'),
            (''headers'', headers'),
            (''cookies'', cookies ca),
            (''files'', files ca),
            (''auth'', auth ca),
            (''hooks'', hooks'),
            (''timeout'', timeout ca),
            (''allow_redirects'', allow_redirects ca),
            (''proxies'', proxies'),
            (''config'', config'),
            (''prefetch'', prefetch ca),
            (''verify'', verify ca),
            (''cert'', cert ca),
            (''_poolmanager'', poolmanager)]))))))"

text \<open>Line 277: \<^verbatim>\<open>[name for name in cookies if cookies[name] is None]\<close>.\<close>

definition dead_names :: "dict \<Rightarrow> string list" where
  "dead_names d = filter (\<lambda>n. map_of d n = Some PNone) (map fst d)"

text \<open>
  Line 279, \<^verbatim>\<open>for cookie in self.cookies\<close>: the cookies of a jar; nothing for an empty
  sequence or dictionary; a non-empty one yields elements that are not cookies, on which
  \<open>set_cookie\<close> fails; the other values cannot be iterated.
\<close>

definition iter_cookies :: "heap \<Rightarrow> pyval \<Rightarrow> error + cookie list" where
  "iter_cookies h v =
     (case v of
        PJar j \<Rightarrow> Inr (jars h j)
      | PStr s \<Rightarrow> (if s = [] then Inr [] else Inl AttributeError)
      | PList xs \<Rightarrow> (if xs = [] then Inr [] else Inl AttributeError)
      | PPairs ps \<Rightarrow> (if ps = [] then Inr [] else Inl AttributeError)
      | PDict d \<Rightarrow> (if d = [] then Inr [] else Inl AttributeError)
      | PRef r \<Rightarrow> (if dicts h r = [] then Inr [] else Inl AttributeError)
      | _ \<Rightarrow> Inl TypeError)"

fun set_cookies :: "heap \<Rightarrow> nat \<Rightarrow> cookie list \<Rightarrow> heap" where
  "set_cookies h j [] = h"
| "set_cookies h j (c # cs) = set_cookies (jar_set_cookie h j c) j cs"

fun remove_cookies :: "heap \<Rightarrow> nat \<Rightarrow> string list \<Rightarrow> heap" where
  "remove_cookies h j [] = h"
| "remove_cookies h j (n # ns) = remove_cookies (jar_remove_by_name h j n) j ns"

text \<open>
  Lines 268 to 276: the jar of the call and the dead names. A jar that was passed in is
  used as it is; anything else becomes a new jar.
\<close>

definition call_jar :: "heap \<Rightarrow> pyval \<Rightarrow> dict \<Rightarrow> heap \<times> (error + nat \<times> dict \<times> string list option)" where
  "call_jar h cks args =
     (case cks of
        PJar j \<Rightarrow> (h, Inr (j, args, None))
      | _ \<Rightarrow>
          (case cookiejar_from_dict h cks of
             (h', Inl e) \<Rightarrow> (h', Inl e)
           | (h', Inr j) \<Rightarrow>
               (h', Inr (j, AList.update ''cookies'' (PJar j) args,
                         (if cks \<noteq> PNone then map_option dead_names (dict_view h' cks)
                          else None)))))"

text \<open>Lines 268 to 285.\<close>

definition reconcile_cookies :: "session \<Rightarrow> heap \<Rightarrow> pyval \<Rightarrow> dict \<Rightarrow> heap \<times> (error + dict)" where
  "reconcile_cookies s h cks args =
     bindH (call_jar h cks args) (\<lambda>h1 (j, args1, dead_cookies).
     bindH (h1, getattr s ''cookies'') (\<lambda>h1 session_cookies.
     bindH (h1, iter_cookies h1 session_cookies) (\<lambda>h1 cs.
       (let h2 = set_cookies h1 j cs;
            h3 = (case dead_cookies of None \<Rightarrow> h2 | Some ns \<Rightarrow> remove_cookies h2 j ns)
        in (h3, Inr args1)))))"

text \<open>Lines 287 to 295.\<close>

fun merge_attrs :: "heap \<Rightarrow> session \<Rightarrow> string list \<Rightarrow> dict \<Rightarrow> error + dict" where
  "merge_attrs h s [] args = Inr args"
| "merge_attrs h s (attr # rest) args =
     (if attr = ''cookies'' then merge_attrs h s rest args
      else
        (let session_val = getattr_default s attr PNone;
             local_val = dict_get args attr
         in case merge_kwargs h local_val session_val of
              Inl e \<Rightarrow> Inl e
            | Inr v \<Rightarrow> merge_attrs h s rest (AList.update attr v args)))"

text \<open>Lines 229 to 295: everything \<^verbatim>\<open>request\<close> does before the hooks run.\<close>

definition request_args :: "env \<Rightarrow> session \<Rightarrow> heap \<Rightarrow> string \<Rightarrow> string \<Rightarrow> call_args \<Rightarrow> heap \<times> (error + dict)" where
  "request_args ev s h method url ca =
     (let method' = upper method;
          data' = (if data ca = PNone then PList [] else data ca);
          files' = (if files ca = PNone then PList [] else files ca);
          headers' = (if headers ca = PNone then PDict [] else headers ca);
          params' = (if params ca = PNone then PDict [] else params ca);
          hooks' = (if hooks ca = PNone then PDict [] else hooks ca)
      in
      bindH (h, if prefetch ca \<noteq> PNone then Inr (prefetch ca) else getattr s ''prefetch'') (\<lambda>h prefetch'.
      bindH (h, getattr s ''hooks'') (\<lambda>h session_hooks.
      bindH (seed_hooks h hooks' session_hooks) (\<lambda>h hooks''.
      bindH (expand_headers ev h headers') (\<lambda>h headers''.
      bindH (h, build_args s method' url
                  (ca\<lparr>data := data', files := files', headers := headers'', params := params',
                      hooks := hooks'', prefetch := prefetch'\<rparr>)) (\<lambda>h args.
      bindH (reconcile_cookies s h (cookies ca) args) (\<lambda>h args'.
        (h, merge_attrs h s attrs args'))))))))"

text \<open>\<^verbatim>\<open>d[k]\<close> raises \<^verbatim>\<open>KeyError\<close> on a key that is not there.\<close>

definition dict_item :: "dict \<Rightarrow> string \<Rightarrow> error + pyval" where
  "dict_item d k = (case map_of d k of None \<Rightarrow> Inl KeyErrorKind | Some v \<Rightarrow> Inr v)"

text \<open>
  Lines 297 to 311: the hooks of the event \<^verbatim>\<open>args\<close>, the descriptor, and the send
  unless the caller asked for the unsent descriptor.
\<close>

definition finish_request :: "env \<Rightarrow> session \<Rightarrow> heap \<Rightarrow> dict \<Rightarrow> pyval \<Rightarrow> error + outcome" where
  "finish_request ev s h args rr =
     bindE (dict_item args ''hooks'') (\<lambda>hks.
     bindE (dispatch_hook ev h ''args'' hks args) (\<lambda>args'.
       (let r = \<lparr>req_args = args', req_session = s\<rparr>
        in if \<not> truthy h rr then Inr (Unsent r)
           else bindE (send_request ev r args') (\<lambda>resp. Inr (Sent resp)))))"

definition request :: "env \<Rightarrow> session \<Rightarrow> heap \<Rightarrow> string \<Rightarrow> string \<Rightarrow> call_args \<Rightarrow> heap \<times> (error + outcome)" where
  "request ev s h method url ca =
     bindH (request_args ev s h method url ca) (\<lambda>h' args.
       (h', finish_request ev s h' args (return_response ca)))"

section \<open>The verb methods\<close>

text \<open>
  \<^verbatim>\<open>self.request(method, url, **kwargs)\<close>: the keyword arguments are bound to the
  parameters of \<^verbatim>\<open>request\<close>, each parameter that is not given taking the default of
  lines 170 to 185; a keyword that names no parameter is a \<^verbatim>\<open>TypeError\<close>.
\<close>

definition param_names :: "string list" where
  "param_names = [''params'', ''data'', ''headers'', ''cookies'', ''files'', ''auth'', ''timeout'',
                  ''allow_redirects'', ''proxies'', ''hooks'', ''return_response'', ''config'',
                  ''prefetch'', ''verify'', ''cert'']"

definition kwarg :: "dict \<Rightarrow> string \<Rightarrow> pyval \<Rightarrow> pyval" where
  "kwarg kwargs k dflt = (case map_of kwargs k of None \<Rightarrow> dflt | Some v \<Rightarrow> v)"

definition bind_kwargs :: "dict \<Rightarrow> error + call_args" where
  "bind_kwargs kwargs =
     (if list_all (\<lambda>k. k \<in> set param_names) (map fst kwargs)
      then Inr \<lparr>params = kwarg kwargs ''params'' PNone,
                data = kwarg kwargs ''data'' PNone,
                headers = kwarg kwargs ''headers'' PNone,
                cookies = kwarg kwargs ''cookies'' PNone,
                files = kwarg kwargs ''files'' PNone,
                auth = kwarg kwargs ''auth'' PNone,
                timeout = kwarg kwargs ''timeout'' PNone,
                allow_redirects = kwarg kwargs ''allow_redirects'' (PBool True),
                proxies = kwarg kwargs ''proxies'' PNone,
                hooks = kwarg kwargs ''hooks'' PNone,
                return_response = kwarg kwargs ''return_response'' (PBool True),
                config = kwarg kwargs ''config'' PNone,
                prefetch = kwarg kwargs ''prefetch'' PNone,
                verify = kwarg kwargs ''verify'' PNone,
                cert = kwarg kwargs ''cert'' PNone\<rparr>
      else Inl TypeError)"

definition call_request :: "env \<Rightarrow> session \<Rightarrow> heap \<Rightarrow> string \<Rightarrow> string \<Rightarrow> dict \<Rightarrow> heap \<times> (error + outcome)" where
  "call_request ev s h method url kwargs =
     (case bind_kwargs kwargs of
        Inl e \<Rightarrow> (h, Inl e)
      | Inr ca \<Rightarrow> request ev s h method url ca)"

text \<open>Lines 321 to 364.\<close>

definition get :: "env \<Rightarrow> session \<Rightarrow> heap \<Rightarrow> string \<Rightarrow> dict \<Rightarrow> heap \<times> (error + outcome)" where
  "get ev s h url kwargs =
     call_request ev s h ''get'' url (setdefault kwargs ''allow_redirects'' (PBool True))"

definition options :: "env \<Rightarrow> session \<Rightarrow> heap \<Rightarrow> string \<Rightarrow> dict \<Rightarrow> heap \<times> (error + outcome)" where
  "options ev s h url kwargs =
     call_request ev s h ''options'' url (setdefault kwargs ''allow_redirects'' (PBool True))"

definition head :: "env \<Rightarrow> session \<Rightarrow> heap \<Rightarrow> string \<Rightarrow> dict \<Rightarrow> heap \<times> (error + outcome)" where
  "head ev s h url kwargs =
     call_request ev s h ''head'' url (setdefault kwargs ''allow_redirects'' (PBool False))"

text \<open>
  Lines 366 to 426. \<^verbatim>\<open>data\<close> is a parameter of \<^verbatim>\<open>post\<close>, \<^verbatim>\<open>put\<close> and
  \<^verbatim>\<open>patch\<close>, so it is never among their \<^verbatim>\<open>kwargs\<close>.
\<close>

definition post :: "env \<Rightarrow> session \<Rightarrow> heap \<Rightarrow> string \<Rightarrow> pyval \<Rightarrow> dict \<Rightarrow> heap \<times> (error + outcome)" where
  "post ev s h url dat kwargs = call_request ev s h ''post'' url (AList.update ''data'' dat kwargs)"

definition put :: "env \<Rightarrow> session \<Rightarrow> heap \<Rightarrow> string \<Rightarrow> pyval \<Rightarrow> dict \<Rightarrow> heap \<times> (error + outcome)" where
  "put ev s h url dat kwargs = call_request ev s h ''put'' url (AList.update ''data'' dat kwargs)"

definition patch :: "env \<Rightarrow> session \<Rightarrow> heap \<Rightarrow> string \<Rightarrow> pyval \<Rightarrow> dict \<Rightarrow> heap \<times> (error + outcome)" where
  "patch ev s h url dat kwargs = call_request ev s h ''patch'' url (AList.update ''data'' dat kwargs)"

definition delete :: "env \<Rightarrow> session \<Rightarrow> heap \<Rightarrow> string \<Rightarrow> dict \<Rightarrow> heap \<times> (error + outcome)" where
  "delete ev s h url kwargs = call_request ev s h ''delete'' url kwargs"

section \<open>A concrete session and concrete calls\<close>

text \<open>
  A session with every attribute the constructor sets, with two hooks and a jar holding the cookies
  \<open>a = 1\<close> and \<open>b = 2\<close>; a store in which the caller holds a headers dictionary at
  address 0 and a hooks dictionary at address 1; collaborators whose hooks leave the data
  alone and whose send always fails.
\<close>

definition sess0 :: session where
  "sess0 = [(''headers'', PDict [(''Accept'', PStr ''*/*'')]),
            (''cookies'', PJar 0),
            (''auth'', PNone),
            (''timeout'', PNone),
            (''proxies'', PDict []),
            (''hooks'', PDict [(''response'', PFun 1), (''post_request'', PFun 4)]),
            (''params'', PDict []),
            (''config'', PDict [(''pool_connections'', PInt 10), (''pool_maxsize'', PInt 10)]),
            (''prefetch'', PBool True),
            (''verify'', PBool True),
            (''cert'', PNone),
            (''poolmanager'', PPool (PInt 10) (PInt 10))]"

definition cookie_a :: cookie where
  "cookie_a = \<lparr>name = ''a'', cvalue = PInt 1, domain = ''example.org'', path = ''/''\<rparr>"

definition cookie_b :: cookie where
  "cookie_b = \<lparr>name = ''b'', cvalue = PInt 2, domain = [], path = ''/''\<rparr>"

definition heap1 :: heap where
  "heap1 = \<lparr>dicts = (\<lambda>_. [])(0 := [(''Accept'', PList [PStr ''a'', PStr ''b''])],
                                1 := [(''response'', PFun 2), (''pre_request'', PFun 3)]),
            jars = (\<lambda>_. [])(0 := [cookie_a, cookie_b]),
            next_jar = 1\<rparr>"

definition env0 :: env where
  "env0 = \<lparr>header_expand = (\<lambda>v. case v of PList xs \<Rightarrow> PStr ''a; b'' | _ \<Rightarrow> v),
            call_hook = (\<lambda>f d. Inr None),
            send = (\<lambda>r p. Inl (TransportError ''connection refused'')),
            safe_mode = True\<rparr>"

definition env1 :: env where
  "env1 = env0\<lparr>safe_mode := False\<rparr>"

definition args0 :: call_args where
  "args0 = \<lparr>params = PNone, data = PNone, headers = PNone, cookies = PNone, files = PNone,
            auth = PNone, timeout = PNone, allow_redirects = PBool True, proxies = PNone,
            hooks = PNone, return_response = PBool True, config = PNone, prefetch = PNone,
            verify = PNone, cert = PNone\<rparr>"

definition cookies1 :: pyval where
  "cookies1 = PDict [(''b'', PNone), (''c'', PInt 3)]"

definition cookies2 :: pyval where
  "cookies2 = PDict [(''b'', PInt 9), (''c'', PNone)]"

definition hooks1 :: pyval where
  "hooks1 = PDict [(''response'', PFun 2), (''pre_request'', PFun 3)]"

definition kwargs1 :: dict where
  "kwargs1 = [(''return_response'', PBool False)]"

section \<open>Properties of the dictionary operations\<close>

lemma keys_dict_update: "fst ` set (dict_update d its) = fst ` set d \<union> fst ` set its"
  unfolding dict_update_def
  by (induction its arbitrary: d) (auto simp: dom_update split: prod.splits)

lemma distinct_dict_update: "distinct (map fst d) \<Longrightarrow> distinct (map fst (dict_update d its))"
  unfolding dict_update_def
  by (induction its arbitrary: d) (auto simp: distinct_update split: prod.splits)

lemma map_of_dict_update:
  "distinct (map fst its) \<Longrightarrow>
   map_of (dict_update d its) k = (case map_of its k of Some v \<Rightarrow> Some v | None \<Rightarrow> map_of d k)"
  unfolding dict_update_def
proof (induction its arbitrary: d)
  case Nil
  then show ?case by simp
next
  case (Cons it its)
  obtain k' v' where it: "it = (k', v')" by (cases it)
  from Cons.prems it have notin: "k' \<notin> fst ` set its" and dist: "distinct (map fst its)"
    by auto
  have none: "map_of its k' = None"
    using notin by (simp add: map_of_eq_None_iff)
  show ?case
    using Cons.IH [OF dist, of "AList.update k' v' d"] none
    by (auto simp: it update_conv' split: option.splits)
qed

lemma dict_update_Nil: "distinct (map fst its) \<Longrightarrow> dict_update [] its = its"
proof -
  have "distinct (map fst (d @ its)) \<Longrightarrow> dict_update d its = d @ its" for d
    unfolding dict_update_def
  proof (induction its arbitrary: d)
    case Nil
    then show ?case by simp
  next
    case (Cons it its)
    obtain k v where it: "it = (k, v)" by (cases it)
    have "AList.update k v d = d @ [(k, v)]"
      using Cons.prems it by (induction d) auto
    then show ?case using Cons.IH [of "d @ [(k, v)]"] Cons.prems it by simp
  qed
  from this [of "[]"] show "distinct (map fst its) \<Longrightarrow> dict_update [] its = its" by simp
qed

lemma has_key_delete: "has_key (AList.delete k d) k' = (k' \<noteq> k \<and> has_key d k')"
  by (induction d) (auto simp: has_key_def)

section \<open>The overlay and the deletion of the keys set to None\<close>

text \<open>
  The deletion loop never meets a missing key when every None-valued key of the items is
  in the dictionary it deletes from, and it removes exactly those keys.
\<close>

lemma remove_none_ok:
  "distinct (map fst its) \<Longrightarrow> (\<forall>k. (k, PNone) \<in> set its \<longrightarrow> has_key kw k) \<Longrightarrow>
   \<exists>r. remove_none its kw = Inr r \<and>
       (\<forall>k. map_of r k = (if (k, PNone) \<in> set its then None else map_of kw k))"
proof (induction its arbitrary: kw)
  case Nil
  then show ?case by simp
next
  case (Cons it its)
  obtain k v where it: "it = (k, v)" by (cases it)
  from Cons.prems it have notin: "k \<notin> fst ` set its" and dist: "distinct (map fst its)"
    by auto
  show ?case
  proof (cases "v = PNone")
    case True
    have hk: "has_key kw k" using Cons.prems(2) it True by simp
    have pre: "\<forall>k'. (k', PNone) \<in> set its \<longrightarrow> has_key (AList.delete k kw) k'"
    proof (intro allI impI)
      fix k' assume a: "(k', PNone) \<in> set its"
      then have "k' \<noteq> k" using notin by force
      moreover have "has_key kw k'" using Cons.prems(2) a by simp
      ultimately show "has_key (AList.delete k kw) k'"
        by (simp add: has_key_delete)
    qed
    from Cons.IH [OF dist pre] obtain r where
      r: "remove_none its (AList.delete k kw) = Inr r"
         "\<forall>k'. map_of r k' = (if (k', PNone) \<in> set its then None else map_of (AList.delete k kw) k')"
      by blast
    show ?thesis
      using r hk True it by (auto simp: dict_del_def delete_conv')
  next
    case False
    have pre: "\<forall>k'. (k', PNone) \<in> set its \<longrightarrow> has_key kw k'"
      using Cons.prems(2) by simp
    from Cons.IH [OF dist pre] show ?thesis
      using False it by auto
  qed
qed

lemma remove_none_id: "PNone \<notin> snd ` set its \<Longrightarrow> remove_none its kw = Inr kw"
  by (induction its arbitrary: kw) auto

lemma overlay_ok:
  assumes "distinct (map fst l)"
  shows "\<exists>r. overlay l d = Inr r \<and>
       (\<forall>k. map_of r k = (case map_of l k of
                            Some v \<Rightarrow> if v = PNone then None else Some v
                          | None \<Rightarrow> map_of d k))"
proof -
  have pre: "\<forall>k. (k, PNone) \<in> set l \<longrightarrow> has_key (dict_update d l) k"
    by (force simp: has_key_def keys_dict_update)
  from remove_none_ok [OF assms pre] obtain r where
    r: "remove_none l (dict_update d l) = Inr r"
       "\<forall>k. map_of r k = (if (k, PNone) \<in> set l then None else map_of (dict_update d l) k)"
    by blast
  have "map_of r k = (case map_of l k of
                            Some v \<Rightarrow> if v = PNone then None else Some v
                          | None \<Rightarrow> map_of d k)" for k
    using r(2) assms by (auto simp: map_of_dict_update split: option.splits)
  then show ?thesis using r(1) by (simp add: overlay_def)
qed

lemma merge_kwargs_dicts:
  assumes "dict_view h lv = Some l" "dict_view h dv = Some d"
  shows "merge_kwargs h lv dv =
           (case overlay l d of Inl e \<Rightarrow> Inl e | Inr kwargs \<Rightarrow> Inr (PDict kwargs))"
  using assms
  by (cases lv; cases dv)
     (simp_all add: merge_kwargs_def dict_view_def is_str_def has_items_def from_key_val_list_def)

lemma from_key_val_list_local:
  assumes "well_formed h lv"
  shows "from_key_val_list lv = Inl TypeKind \<or>
         (\<exists>lv' l. from_key_val_list lv = Inr lv' \<and> dict_view h lv' = Some l \<and>
               distinct (map fst l))"
  using assms
  by (cases lv)
     (simp_all add: from_key_val_list_def well_formed_def dict_view_def distinct_dict_update)

lemma merge_kwargs_overlay:
  assumes "dict_view h lv = Some l" and "dict_view h dv = Some d"
      and "distinct (map fst l)"
  shows "\<exists>r. merge_kwargs h lv dv = Inr (PDict r) \<and>
           (\<forall>k. map_of r k = (case map_of l k of
                                Some v \<Rightarrow> if v = PNone then None else Some v
                              | None \<Rightarrow> map_of d k))"
proof -
  from overlay_ok [OF assms(3), of d] obtain r where
    r: "overlay l d = Inr r"
       "\<forall>k. map_of r k = (case map_of l k of
                            Some v \<Rightarrow> if v = PNone then None else Some v
                          | None \<Rightarrow> map_of d k)"
    by blast
  have "merge_kwargs h lv dv = Inr (PDict r)"
    using merge_kwargs_dicts [OF assms(1,2)] r(1) by simp
  then show ?thesis using r(2) by blast
qed

text \<open>
  Claim C2. For a local mapping \<open>l\<close> and a session-default mapping \<open>d\<close>, the merge
  succeeds with a dictionary in which every key that \<open>l\<close> maps to None is absent
  (whatever \<open>d\<close> holds for it), every other key of \<open>l\<close> has the value \<open>l\<close> gives
  it, and every key that \<open>l\<close> does not mention has what \<open>d\<close> has for it.
\<close>

theorem merge_kwargs_none_deletes:
  assumes "dict_view h lv = Some l" and "dict_view h dv = Some d"
      and "distinct (map fst l)"
  shows "\<exists>r. merge_kwargs h lv dv = Inr (PDict r) \<and>
           (\<forall>k. map_of l k = Some PNone \<longrightarrow> map_of r k = None) \<and>
           (\<forall>k v. map_of l k = Some v \<and> v \<noteq> PNone \<longrightarrow> map_of r k = Some v) \<and>
           (\<forall>k. map_of l k = None \<longrightarrow> map_of r k = map_of d k)"
proof -
  from merge_kwargs_overlay [OF assms] obtain r where
    r: "merge_kwargs h lv dv = Inr (PDict r)"
       "\<forall>k. map_of r k = (case map_of l k of
                            Some v \<Rightarrow> if v = PNone then None else Some v
                          | None \<Rightarrow> map_of d k)"
    by blast
  have "\<forall>k. map_of l k = Some PNone \<longrightarrow> map_of r k = None"
    using r(2) by simp
  moreover have "\<forall>k v. map_of l k = Some v \<and> v \<noteq> PNone \<longrightarrow> map_of r k = Some v"
    using r(2) by simp
  moreover have "\<forall>k. map_of l k = None \<longrightarrow> map_of r k = map_of d k"
    using r(2) by simp
  ultimately show ?thesis using r(1) by blast
qed

theorem merge_kwargs_none_deletes_witness:
  "\<exists>r. merge_kwargs heap0 (PDict [(''a'', PNone), (''b'', PStr ''x'')])
                           (PDict [(''a'', PStr ''s''), (''c'', PStr ''t'')]) = Inr (PDict r) \<and>
       map_of r ''a'' = None \<and> map_of r ''b'' = Some (PStr ''x'') \<and>
       map_of r ''c'' = Some (PStr ''t'')"
proof -
  have 1: "dict_view heap0 (PDict [(''a'', PNone), (''b'', PStr ''x'')])
            = Some [(''a'', PNone), (''b'', PStr ''x'')]"
    by (simp add: dict_view_def)
  have 2: "dict_view heap0 (PDict [(''a'', PStr ''s''), (''c'', PStr ''t'')])
            = Some [(''a'', PStr ''s''), (''c'', PStr ''t'')]"
    by (simp add: dict_view_def)
  have 3: "distinct (map fst [(''a'', PNone), (''b'', PStr ''x'')])" by simp
  from merge_kwargs_none_deletes [OF 1 2 3] show ?thesis by fastforce
qed

text \<open>
  Claim C3, as amended. With the session default absent (None) the merge returns the
  local value unchanged, whatever it is. With the session default an empty mapping it
  returns the local value when that is a string, and a mapping equal to the local one
  when that is a mapping none of whose values is None.
\<close>

theorem merge_kwargs_identity_amended:
  "merge_kwargs h lv PNone = Inr lv \<and>
   (is_str lv \<longrightarrow> merge_kwargs h lv (PDict []) = Inr lv) \<and>
   (distinct (map fst l) \<and> PNone \<notin> snd ` set l \<longrightarrow>
      merge_kwargs h (PDict l) (PDict []) = Inr (PDict l))"
proof -
  have "merge_kwargs h (PDict l) (PDict []) = Inr (PDict l)"
    if dl: "distinct (map fst l)" and nn: "PNone \<notin> snd ` set l"
  proof -
    have "overlay l [] = Inr l"
      using nn dl by (simp add: overlay_def dict_update_Nil remove_none_id)
    then show ?thesis
      using merge_kwargs_dicts [of h "PDict l" l "PDict []" "[]"]
      by (simp add: dict_view_def)
  qed
  then show ?thesis
    by (simp add: merge_kwargs_def)
qed

theorem merge_kwargs_identity_amended_witness:
  "merge_kwargs heap0 (PInt 5) PNone = Inr (PInt 5) \<and>
   is_str (PStr ''literal'') \<and>
   merge_kwargs heap0 (PStr ''literal'') (PDict []) = Inr (PStr ''literal'') \<and>
   distinct (map fst [(''a'', PInt 1)]) \<and> PNone \<notin> snd ` set [(''a'', PInt 1)] \<and>
   merge_kwargs heap0 (PDict [(''a'', PInt 1)]) (PDict []) = Inr (PDict [(''a'', PInt 1)])"
  using merge_kwargs_identity_amended [of heap0 "PInt 5" "[(''a'', PInt 1)]"]
        merge_kwargs_identity_amended [of heap0 "PStr ''literal''" "[(''a'', PInt 1)]"]
  by (simp add: is_str_def)

text \<open>
  Claim C3 as stated fails: with the session default an empty mapping and the local
  value None, the merge returns the empty mapping, not None.
\<close>

theorem merge_kwargs_identity_counterexample:
  "merge_kwargs heap0 PNone (PDict []) = Inr (PDict []) \<and>
   merge_kwargs heap0 PNone (PDict []) \<noteq> Inr PNone"
  by (simp add: merge_kwargs_def is_str_def)

text \<open>
  Claim C6. The merge never fails with \<open>KeyErrorKind\<close>: each key the deletion loop
  removes was stored by the overlay of the local items just before.
\<close>

theorem merge_kwargs_no_key_error:
  assumes "well_formed h lv"
  shows "merge_kwargs h lv dv \<noteq> Inl KeyErrorKind"
proof
  assume ke: "merge_kwargs h lv dv = Inl KeyErrorKind"
  then have items: "has_items dv"
    by (auto simp: merge_kwargs_def split: if_splits)
  then obtain d where d: "from_key_val_list dv = Inr dv" "dict_view h dv = Some d"
    by (cases dv) (simp_all add: has_items_def from_key_val_list_def dict_view_def)
  from from_key_val_list_local [OF assms]
  show False
  proof
    assume "from_key_val_list lv = Inl TypeKind"
    then show False
      using ke d by (auto simp: merge_kwargs_def split: if_splits)
  next
    assume "\<exists>lv' l. from_key_val_list lv = Inr lv' \<and> dict_view h lv' = Some l \<and>
               distinct (map fst l)"
    then obtain lv' l where l: "from_key_val_list lv = Inr lv'" "dict_view h lv' = Some l"
        "distinct (map fst l)"
      by blast
    from overlay_ok [OF l(3), of d] obtain r where "overlay l d = Inr r" by blast
    then show False
      using ke d l by (auto simp: merge_kwargs_def split: if_splits)
  qed
qed

theorem merge_kwargs_no_key_error_witness:
  "well_formed heap0 (PDict [(''a'', PNone)]) \<and>
   merge_kwargs heap0 (PDict [(''a'', PNone)]) (PDict [(''b'', PInt 1)]) \<noteq> Inl KeyErrorKind"
proof -
  have wf: "well_formed heap0 (PDict [(''a'', PNone)])"
    by (simp add: well_formed_def dict_view_def)
  from merge_kwargs_no_key_error [OF wf, of "PDict [(''b'', PInt 1)]"] wf
  show ?thesis by simp
qed

section \<open>The snapshot of a session\<close>

lemma keys_getstate: "map fst (getstate s) = attrs"
  by (simp add: getstate_def attrs_def dict_update_def)

lemma map_of_getstate:
  "map_of (getstate s) a = (if a \<in> set attrs then Some (getattr_default s a PNone) else None)"
  by (simp add: getstate_def attrs_def dict_update_def)

lemma fold_setattr: "fold (\<lambda>(attr, v) s'. setattr s' attr v) state s = dict_update s state"
  by (simp add: dict_update_def setattr_def)

text \<open>
  Claim C8. For a session whose \<open>config\<close> is a dictionary, restoring the snapshot
  (on any object \<open>s0\<close>, the empty one in particular) succeeds; every tracked attribute
  of the restored session has the value the snapshot took from the original; its pool
  manager is built from the two pool options of the restored configuration, whatever
  pool manager \<open>s0\<close> or the original had; the keys of the snapshot are exactly the
  tracked attributes, so the pool manager is not among them.
\<close>

theorem snapshot_round_trip:
  assumes "dict_view h (getattr_default s ''config'' PNone) = Some d"
  shows "\<exists>s'. setstate h s0 (getstate s) = Inr s' \<and>
           (\<forall>a \<in> set attrs. getattr s' a = Inr (getattr_default s a PNone)) \<and>
           getattr s' ''poolmanager'' =
             Inr (PPool (dict_get d ''pool_connections'') (dict_get d ''pool_maxsize'')) \<and>
           map fst (getstate s) = attrs \<and>
           \<not> has_key (getstate s) ''poolmanager''"
proof -
  let ?s1 = "dict_update s0 (getstate s)"
  have dist: "distinct (map fst (getstate s))"
    by (simp add: keys_getstate attrs_def)
  have s1: "map_of ?s1 a = (if a \<in> set attrs then Some (getattr_default s a PNone) else map_of s0 a)" for a
    by (simp add: map_of_dict_update [OF dist] map_of_getstate)
  have cfg: "getattr ?s1 ''config'' = Inr (getattr_default s ''config'' PNone)"
    by (simp add: getattr_def s1 attrs_def)
  let ?pm = "PPool (dict_get d ''pool_connections'') (dict_get d ''pool_maxsize'')"
  let ?s' = "setattr ?s1 ''poolmanager'' ?pm"
  have res: "setstate h s0 (getstate s) = Inr ?s'"
    by (simp add: setstate_def fold_setattr init_poolmanager_def cfg assms)
  have tracked: "\<forall>a \<in> set attrs. getattr ?s' a = Inr (getattr_default s a PNone)"
  proof
    fix a assume a: "a \<in> set attrs"
    then have "a \<noteq> ''poolmanager''" by (auto simp: attrs_def)
    then show "getattr ?s' a = Inr (getattr_default s a PNone)"
      using a by (simp add: getattr_def setattr_def update_conv' s1)
  qed
  have pm: "getattr ?s' ''poolmanager'' = Inr ?pm"
    by (simp add: getattr_def setattr_def update_conv')
  have nopm: "\<not> has_key (getstate s) ''poolmanager''"
    by (simp add: has_key_def keys_getstate attrs_def flip: set_map)
  show ?thesis using res tracked pm nopm keys_getstate by blast
qed

theorem snapshot_round_trip_witness:
  "dict_view heap0 (getattr_default sess0 ''config'' PNone)
     = Some [(''pool_connections'', PInt 10), (''pool_maxsize'', PInt 10)] \<and>
   (\<exists>s'. setstate heap0 [] (getstate sess0) = Inr s' \<and>
      getattr s' ''headers'' = Inr (PDict [(''Accept'', PStr ''*/*'')]) \<and>
      getattr s' ''cookies'' = Inr (PJar 0) \<and>
      getattr s' ''poolmanager'' = Inr (PPool (PInt 10) (PInt 10)))"
proof -
  have c: "dict_view heap0 (getattr_default sess0 ''config'' PNone)
     = Some [(''pool_connections'', PInt 10), (''pool_maxsize'', PInt 10)]"
    by (simp add: dict_view_def getattr_default_def sess0_def)
  from snapshot_round_trip [OF c, of "[]"] obtain s' where
    s': "setstate heap0 [] (getstate sess0) = Inr s'"
        "\<forall>a \<in> set attrs. getattr s' a = Inr (getattr_default sess0 a PNone)"
        "getattr s' ''poolmanager'' =
             Inr (PPool (dict_get [(''pool_connections'', PInt 10), (''pool_maxsize'', PInt 10)] ''pool_connections'')
                        (dict_get [(''pool_connections'', PInt 10), (''pool_maxsize'', PInt 10)] ''pool_maxsize''))"
    by blast
  have "getattr s' ''headers'' = Inr (PDict [(''Accept'', PStr ''*/*'')])"
       "getattr s' ''cookies'' = Inr (PJar 0)"
    using s'(2) by (simp_all add: attrs_def getattr_default_def sess0_def)
  then show ?thesis using c s'(1,3) by (auto simp: dict_get_def)
qed

section \<open>The structure of a successful request\<close>

lemma bindH_Inr:
  "bindH m f = (h', Inr y) \<longleftrightarrow> (\<exists>h1 x. m = (h1, Inr x) \<and> f h1 x = (h', Inr y))"
  by (auto simp: bindH_def split: prod.splits sum.splits)

lemma bindE_Inr: "bindE m f = Inr y \<longleftrightarrow> (\<exists>x. m = Inr x \<and> f x = Inr y)"
  by (auto simp: bindE_def split: sum.splits)

lemma bindH_ok: "bindH (h, Inr x) f = f h x"
  by (simp add: bindH_def)

lemma bindH_cases:
  assumes "bindH m f = (h', r)"
  obtains (fail) e where "m = (h', Inl e)" "r = Inl e"
        | (ok) h1 x where "m = (h1, Inr x)" "f h1 x = (h', r)"
  using assms by (auto simp: bindH_def split: prod.splits sum.splits)

lemma request_args_Inr:
  assumes "request_args ev s h method url ca = (h', Inr args)"
  shows "\<exists>pf sh h1 hk h2 hd a0 a1.
           (if prefetch ca \<noteq> PNone then Inr (prefetch ca) else getattr s ''prefetch'') = Inr pf \<and>
           getattr s ''hooks'' = Inr sh \<and>
           seed_hooks h (if hooks ca = PNone then PDict [] else hooks ca) sh = (h1, Inr hk) \<and>
           expand_headers ev h1 (if headers ca = PNone then PDict [] else headers ca) = (h2, Inr hd) \<and>
           build_args s (upper method) url
             (ca\<lparr>data := (if data ca = PNone then PList [] else data ca),
                 files := (if files ca = PNone then PList [] else files ca),
                 headers := hd,
                 params := (if params ca = PNone then PDict [] else params ca),
                 hooks := hk, prefetch := pf\<rparr>) = Inr a0 \<and>
           reconcile_cookies s h2 (cookies ca) a0 = (h', Inr a1) \<and>
           merge_attrs h' s attrs a1 = Inr args"
  using assms unfolding request_args_def Let_def bindH_Inr
  apply (elim exE conjE)
  apply (simp only: prod.inject)
  apply (elim conjE)
  apply hypsubst
  apply (intro exI conjI)
        apply (rule refl | assumption)+
  done

lemma request_Unsent:
  assumes "request ev s h method url ca = (h', Inr (Unsent r))"
  shows "\<exists>args hks. request_args ev s h method url ca = (h', Inr args) \<and>
           dict_item args ''hooks'' = Inr hks \<and>
           dispatch_hook ev h' ''args'' hks args = Inr (req_args r)"
  using assms
  by (auto simp: request_def finish_request_def bindH_Inr bindE_Inr Let_def split: if_splits)

lemma build_args_map_of:
  assumes "build_args s method url ca = Inr args"
  shows "map_of args ''allow_redirects'' = Some (allow_redirects ca)"
  using assms unfolding build_args_def bindE_Inr by auto

lemma build_args_hooks:
  assumes "build_args s method url ca = Inr args" "has_items (hooks ca)"
  shows "dict_get args ''hooks'' = hooks ca"
  using assms unfolding build_args_def bindE_Inr
  by (cases "hooks ca") (auto simp: dict_get_def has_items_def from_key_val_list_def)

lemma dict_get_update: "dict_get (AList.update a v args) k = (if k = a then v else dict_get args k)"
  by (simp add: dict_get_def update_conv')

lemma merge_attrs_other:
  "merge_attrs h s as args = Inr args' \<Longrightarrow> k \<notin> set as \<Longrightarrow> map_of args' k = map_of args k"
proof (induction as arbitrary: args)
  case Nil
  then show ?case by simp
next
  case (Cons a as)
  then show ?case
    by (auto simp: Let_def update_conv' split: if_splits sum.splits)
qed

lemma merge_attrs_cookies:
  "merge_attrs h s as args = Inr args' \<Longrightarrow> map_of args' ''cookies'' = map_of args ''cookies''"
proof (induction as arbitrary: args)
  case Nil
  then show ?case by simp
next
  case (Cons a as)
  then show ?case
    by (auto simp: Let_def update_conv' split: if_splits sum.splits)
qed

lemma merge_attrs_at:
  "merge_attrs h s as args = Inr args' \<Longrightarrow> distinct as \<Longrightarrow> k \<in> set as \<Longrightarrow> k \<noteq> ''cookies'' \<Longrightarrow>
   \<exists>v. merge_kwargs h (dict_get args k) (getattr_default s k PNone) = Inr v \<and>
       map_of args' k = Some v"
proof (induction as arbitrary: args)
  case Nil
  then show ?case by simp
next
  case (Cons a as)
  show ?case
  proof (cases "a = k")
    case True
    with Cons.prems obtain v where
      v: "merge_kwargs h (dict_get args k) (getattr_default s k PNone) = Inr v"
      and rest: "merge_attrs h s as (AList.update k v args) = Inr args'"
      by (auto simp: Let_def split: sum.splits)
    have "k \<notin> set as" using Cons.prems(2) True by simp
    from merge_attrs_other [OF rest this] v show ?thesis
      by (simp add: update_conv')
  next
    case False
    then have k: "k \<in> set as" using Cons.prems(3) by simp
    have d: "distinct as" using Cons.prems(2) by simp
    show ?thesis
    proof (cases "a = ''cookies''")
      case True
      then have "merge_attrs h s as args = Inr args'" using Cons.prems(1) by simp
      from Cons.IH [OF this d k Cons.prems(4)] show ?thesis .
    next
      case nc: False
      with Cons.prems(1) obtain w where
        rest: "merge_attrs h s as (AList.update a w args) = Inr args'"
        by (auto simp: Let_def split: sum.splits)
      from Cons.IH [OF rest d k Cons.prems(4)] False show ?thesis
        by (simp add: dict_get_update)
    qed
  qed
qed

lemma call_jar_other:
  "call_jar h cks args = (h', Inr (j, args', dead)) \<Longrightarrow> k \<noteq> ''cookies'' \<Longrightarrow>
   map_of args' k = map_of args k"
  by (auto simp: call_jar_def update_conv' split: pyval.splits prod.splits sum.splits)

lemma call_jar_dict:
  assumes "call_jar h (PDict cd) args = (h1, Inr (j, args1, dead))"
  shows "j = next_jar h \<and> args1 = AList.update ''cookies'' (PJar j) args \<and>
         dead = Some (dead_names cd) \<and>
         h1 = h\<lparr>jars := (jars h)(next_jar h := jar_of_dict cd), next_jar := Suc (next_jar h)\<rparr>"
  using assms
  by (auto simp: call_jar_def cookiejar_from_dict_def alloc_jar_def dict_view_def)

lemma reconcile_cookies_Inr:
  "reconcile_cookies s h cks args = (h', Inr args') \<longleftrightarrow>
     (\<exists>h1 j dead sc cs.
        call_jar h cks args = (h1, Inr (j, args', dead)) \<and>
        getattr s ''cookies'' = Inr sc \<and>
        iter_cookies h1 sc = Inr cs \<and>
        h' = (case dead of None \<Rightarrow> set_cookies h1 j cs
              | Some ns \<Rightarrow> remove_cookies (set_cookies h1 j cs) j ns))"
  by (auto simp: reconcile_cookies_def bindH_def Let_def split: prod.splits sum.splits)

lemma reconcile_cookies_other:
  assumes "reconcile_cookies s h cks args = (h', Inr args')" "k \<noteq> ''cookies''"
  shows "map_of args' k = map_of args k"
  using assms unfolding reconcile_cookies_Inr
  by (auto dest: call_jar_other)

lemma request_args_allow_redirects:
  assumes "request_args ev s h method url ca = (h', Inr args)"
  shows "dict_item args ''allow_redirects'' = Inr (allow_redirects ca)"
proof -
  from request_args_Inr [OF assms] obtain pf sh h1 hk h2 hd a0 a1 where
    b: "build_args s (upper method) url
             (ca\<lparr>data := (if data ca = PNone then PList [] else data ca),
                 files := (if files ca = PNone then PList [] else files ca),
                 headers := hd,
                 params := (if params ca = PNone then PDict [] else params ca),
                 hooks := hk, prefetch := pf\<rparr>) = Inr a0"
    and r: "reconcile_cookies s h2 (cookies ca) a0 = (h', Inr a1)"
    and m: "merge_attrs h' s attrs a1 = Inr args"
    by blast
  have "map_of args ''allow_redirects'' = map_of a1 ''allow_redirects''"
    using merge_attrs_other [OF m] by (simp add: attrs_def)
  also have "\<dots> = map_of a0 ''allow_redirects''"
    using reconcile_cookies_other [OF r] by simp
  also have "\<dots> = Some (allow_redirects ca)"
    using build_args_map_of [OF b] by simp
  finally show ?thesis by (simp add: dict_item_def)
qed

lemma run_hooks_noop:
  assumes "\<forall>f d. call_hook ev f d = Inr None"
  shows "run_hooks ev hs d = Inr d' \<Longrightarrow> d' = d"
  using assms
  by (induction ev hs d rule: run_hooks.induct) (auto split: sum.splits option.splits)

lemma dispatch_hook_noop:
  assumes "\<forall>f d. call_hook ev f d = Inr None" "dispatch_hook ev h key hks d = Inr d'"
  shows "d' = d"
  using assms(2) run_hooks_noop [OF assms(1), of "[]"] run_hooks_noop [OF assms(1)]
  by (auto simp: dispatch_hook_def assms(1) split: option.splits pyval.splits)

text \<open>
  Evaluating the model on the concrete session: the definitions to unfold, and three runs
  that succeed.
\<close>

lemmas model_defs =
  request_def request_args_def finish_request_def bindH_def bindE_def Let_def
  seed_hooks_def expand_headers_def build_args_def reconcile_cookies_def call_jar_def
  cookiejar_from_dict_def alloc_jar_def iter_cookies_def jar_set_cookie_def
  jar_remove_by_name_def remove_cookie_by_name_def same_key_def create_cookie_def
  jar_of_dict_def default_domain_def default_path_def dead_names_def
  merge_kwargs_def overlay_def dict_update_def dict_del_def has_key_def dict_view_def
  from_key_val_list_def has_items_def is_str_def setdefault_def store_dict_def truthy_def
  getattr_def getattr_default_def dict_get_def dict_item_def attrs_def
  dispatch_hook_def send_request_def catch_exceptions_if_in_safe_mode_def
  upper_def upper_char_def seeded_def

lemma request_args_example:
  "\<exists>h' args hks. request_args ev sess0 heap1 ''get'' ''http://example.org/'' args0 = (h', Inr args) \<and>
     dict_item args ''hooks'' = Inr (PDict hks) \<and> map_of hks ''args'' = None"
  by (simp add: model_defs sess0_def heap1_def args0_def)

lemma request_args_cookies_example:
  "\<exists>h' args. request_args ev sess0 heap1 ''get'' ''http://example.org/''
                 (args0\<lparr>cookies := PDict cd\<rparr>) = (h', Inr args)"
  by (simp add: model_defs sess0_def heap1_def args0_def)

lemma request_args_hooks_example:
  "\<exists>h' args. request_args ev sess0 heap1 ''get'' ''http://example.org/''
                 (args0\<lparr>hooks := hooks1\<rparr>) = (h', Inr args)"
  by (simp add: model_defs sess0_def heap1_def args0_def hooks1_def)

lemma request_unsent_example:
  "\<exists>h' r. request env0 sess0 heap1 method ''http://example.org/''
             (args0\<lparr>return_response := PBool False, allow_redirects := b\<rparr>) = (h', Inr (Unsent r))"
  by (simp add: model_defs sess0_def heap1_def args0_def env0_def)

section \<open>The verb methods and allow_redirects\<close>

lemma bind_kwargs_setdefault:
  assumes "bind_kwargs kwargs = Inr ca"
  shows "bind_kwargs (setdefault kwargs ''allow_redirects'' v) =
           Inr (ca\<lparr>allow_redirects := kwarg kwargs ''allow_redirects'' v\<rparr>)"
proof (cases "has_key kwargs ''allow_redirects''")
  case True
  then obtain x where "map_of kwargs ''allow_redirects'' = Some x"
    by (metis has_key_def map_of_eq_None_iff not_Some_eq)
  then show ?thesis
    using assms True by (auto simp: bind_kwargs_def setdefault_def kwarg_def split: if_splits)
next
  case False
  then have none: "map_of kwargs ''allow_redirects'' = None"
    by (simp add: has_key_def map_of_eq_None_iff)
  have names: "list_all (\<lambda>k. k \<in> set param_names) (map fst kwargs)"
    using assms by (simp add: bind_kwargs_def split: if_splits)
  have other: "kwarg (kwargs @ [(''allow_redirects'', v)]) k d = kwarg kwargs k d"
    if "k \<noteq> ''allow_redirects''" for k d
    using that by (simp add: kwarg_def map_add_def split: option.splits)
  have same: "kwarg (kwargs @ [(''allow_redirects'', v)]) ''allow_redirects'' d = v" for d
    using none by (simp add: kwarg_def map_add_def)
  have "ca = \<lparr>params = kwarg kwargs ''params'' PNone,
                data = kwarg kwargs ''data'' PNone,
                headers = kwarg kwargs ''headers'' PNone,
                cookies = kwarg kwargs ''cookies'' PNone,
                files = kwarg kwargs ''files'' PNone,
                auth = kwarg kwargs ''auth'' PNone,
                timeout = kwarg kwargs ''timeout'' PNone,
                allow_redirects = kwarg kwargs ''allow_redirects'' (PBool True),
                proxies = kwarg kwargs ''proxies'' PNone,
                hooks = kwarg kwargs ''hooks'' PNone,
                return_response = kwarg kwargs ''return_response'' (PBool True),
                config = kwarg kwargs ''config'' PNone,
                prefetch = kwarg kwargs ''prefetch'' PNone,
                verify = kwarg kwargs ''verify'' PNone,
                cert = kwarg kwargs ''cert'' PNone\<rparr>"
    using assms names by (simp add: bind_kwargs_def)
  moreover have "bind_kwargs (kwargs @ [(''allow_redirects'', v)]) =
     Inr \<lparr>params = kwarg kwargs ''params'' PNone,
                data = kwarg kwargs ''data'' PNone,
                headers = kwarg kwargs ''headers'' PNone,
                cookies = kwarg kwargs ''cookies'' PNone,
                files = kwarg kwargs ''files'' PNone,
                auth = kwarg kwargs ''auth'' PNone,
                timeout = kwarg kwargs ''timeout'' PNone,
                allow_redirects = v,
                proxies = kwarg kwargs ''proxies'' PNone,
                hooks = kwarg kwargs ''hooks'' PNone,
                return_response = kwarg kwargs ''return_response'' (PBool True),
                config = kwarg kwargs ''config'' PNone,
                prefetch = kwarg kwargs ''prefetch'' PNone,
                verify = kwarg kwargs ''verify'' PNone,
                cert = kwarg kwargs ''cert'' PNone\<rparr>"
    using names by (simp add: bind_kwargs_def other same param_names_def)
  ultimately show ?thesis
    using False none by (simp add: setdefault_def kwarg_def)
qed

text \<open>
  Claim C9. For keyword arguments that \<^verbatim>\<open>request\<close> accepts, \<^verbatim>\<open>get\<close> and
  \<^verbatim>\<open>options\<close> call \<^verbatim>\<open>request\<close> with \<open>allow_redirects\<close> bound to True and
  \<^verbatim>\<open>head\<close> with \<open>allow_redirects\<close> bound to False when the caller gave none, and
  to the caller's value when the caller gave one (this is \<open>kwarg kwargs ''allow_redirects''\<close>
  applied to the default). The arguments \<^verbatim>\<open>request\<close> builds hold the bound value
  under \<open>allow_redirects\<close>, and so does the descriptor it returns unsent, when the
  hooks leave the arguments as they are.
\<close>

theorem verbs_allow_redirects:
  assumes "bind_kwargs kwargs = Inr ca"
  shows "get ev s h url kwargs =
           request ev s h ''get'' url
             (ca\<lparr>allow_redirects := kwarg kwargs ''allow_redirects'' (PBool True)\<rparr>) \<and>
         options ev s h url kwargs =
           request ev s h ''options'' url
             (ca\<lparr>allow_redirects := kwarg kwargs ''allow_redirects'' (PBool True)\<rparr>) \<and>
         head ev s h url kwargs =
           request ev s h ''head'' url
             (ca\<lparr>allow_redirects := kwarg kwargs ''allow_redirects'' (PBool False)\<rparr>) \<and>
         (\<forall>method c h' args.
            request_args ev s h method url c = (h', Inr args) \<longrightarrow>
            dict_item args ''allow_redirects'' = Inr (allow_redirects c)) \<and>
         (\<forall>method c h' r.
            (\<forall>f d. call_hook ev f d = Inr None) \<and>
            request ev s h method url c = (h', Inr (Unsent r)) \<longrightarrow>
            dict_item (req_args r) ''allow_redirects'' = Inr (allow_redirects c))"
proof -
  have unsent: "dict_item (req_args r) ''allow_redirects'' = Inr (allow_redirects c)"
    if noop: "\<forall>f d. call_hook ev f d = Inr None"
      and req: "request ev s h meth url c = (h', Inr (Unsent r))" for meth c h' r
  proof -
    from request_Unsent [OF req] obtain args hks where
      a: "request_args ev s h meth url c = (h', Inr args)"
      and d: "dispatch_hook ev h' ''args'' hks args = Inr (req_args r)"
      by blast
    from dispatch_hook_noop [OF noop d] request_args_allow_redirects [OF a]
    show ?thesis by simp
  qed
  have verbs: "get ev s h url kwargs =
           request ev s h ''get'' url
             (ca\<lparr>allow_redirects := kwarg kwargs ''allow_redirects'' (PBool True)\<rparr>)"
         "options ev s h url kwargs =
           request ev s h ''options'' url
             (ca\<lparr>allow_redirects := kwarg kwargs ''allow_redirects'' (PBool True)\<rparr>)"
         "head ev s h url kwargs =
           request ev s h ''head'' url
             (ca\<lparr>allow_redirects := kwarg kwargs ''allow_redirects'' (PBool False)\<rparr>)"
    by (simp_all add: get_def options_def head_def call_request_def
          bind_kwargs_setdefault [OF assms])
  show ?thesis
    using verbs unsent request_args_allow_redirects by blast
qed

theorem verbs_allow_redirects_witness:
  "bind_kwargs kwargs1 = Inr (args0\<lparr>return_response := PBool False\<rparr>) \<and>
   (\<exists>h' r. get env0 sess0 heap1 ''http://example.org/'' kwargs1 = (h', Inr (Unsent r)) \<and>
      dict_item (req_args r) ''allow_redirects'' = Inr (PBool True)) \<and>
   (\<exists>h' r. options env0 sess0 heap1 ''http://example.org/'' kwargs1 = (h', Inr (Unsent r)) \<and>
      dict_item (req_args r) ''allow_redirects'' = Inr (PBool True)) \<and>
   (\<exists>h' r. head env0 sess0 heap1 ''http://example.org/'' kwargs1 = (h', Inr (Unsent r)) \<and>
      dict_item (req_args r) ''allow_redirects'' = Inr (PBool False)) \<and>
   (\<exists>h' r. head env0 sess0 heap1 ''http://example.org/''
              (kwargs1 @ [(''allow_redirects'', PBool True)]) = (h', Inr (Unsent r)) \<and>
      dict_item (req_args r) ''allow_redirects'' = Inr (PBool True))"
proof -
  let ?ca = "args0\<lparr>return_response := PBool False\<rparr>"
  have kw: "bind_kwargs kwargs1 = Inr ?ca"
    by (simp add: bind_kwargs_def kwarg_def param_names_def args0_def kwargs1_def)
  have kw2: "bind_kwargs (kwargs1 @ [(''allow_redirects'', PBool True)]) = Inr ?ca"
    by (simp add: bind_kwargs_def kwarg_def param_names_def args0_def kwargs1_def)
  have noop: "\<forall>f d. call_hook env0 f d = Inr None" by (simp add: env0_def)
  have k1: "kwarg kwargs1 ''allow_redirects'' d = d" for d
    by (simp add: kwarg_def kwargs1_def)
  have k2: "kwarg (kwargs1 @ [(''allow_redirects'', PBool True)]) ''allow_redirects'' d = PBool True" for d
    by (simp add: kwarg_def kwargs1_def)
  note t1 = verbs_allow_redirects [OF kw, of env0 sess0 heap1 "''http://example.org/''"]
  note t2 = verbs_allow_redirects [OF kw2, of env0 sess0 heap1 "''http://example.org/''"]
  have u: "\<exists>h' r. request env0 sess0 heap1 meth ''http://example.org/''
             (?ca\<lparr>allow_redirects := b\<rparr>) = (h', Inr (Unsent r)) \<and>
             dict_item (req_args r) ''allow_redirects'' = Inr b" for meth b
  proof -
    from request_unsent_example [of meth b] obtain h' r where
      r: "request env0 sess0 heap1 meth ''http://example.org/''
             (?ca\<lparr>allow_redirects := b\<rparr>) = (h', Inr (Unsent r))"
      by auto
    from t1 noop r have "dict_item (req_args r) ''allow_redirects'' = Inr (allow_redirects (?ca\<lparr>allow_redirects := b\<rparr>))"
      by blast
    then show ?thesis using r by auto
  qed
  show ?thesis
    using kw t1 t2 u [of "''get''" "PBool True"] u [of "''options''" "PBool True"]
      u [of "''head''" "PBool False"] u [of "''head''" "PBool True"]
    by (simp add: k1 k2)
qed

section \<open>The session jar is left alone\<close>

lemma same_key_iff: "same_key c c' \<longleftrightarrow> cookie_key c = cookie_key c'"
  by (auto simp: same_key_def cookie_key_def)

lemma set_cookies_eq:
  "set_cookies h j cs = h\<lparr>jars := (jars h)(j := fold (\<lambda>c jr. set_cookie jr c) cs (jars h j))\<rparr>"
  by (induction cs arbitrary: h) (simp_all add: jar_set_cookie_def)

lemma remove_cookies_eq:
  "remove_cookies h j ns = h\<lparr>jars := (jars h)(j := filter (\<lambda>c. name c \<notin> set ns) (jars h j))\<rparr>"
proof (induction ns arbitrary: h)
  case Nil
  then show ?case by simp
next
  case (Cons n ns)
  have "filter (\<lambda>c. name c \<notin> set ns) (filter (\<lambda>c. name c \<noteq> n) xs) =
        filter (\<lambda>c. name c \<notin> set (n # ns)) xs" for xs :: jar
    by (induction xs) auto
  then show ?case
    by (simp add: Cons.IH jar_remove_by_name_def remove_cookie_by_name_def fun_upd_def cong: if_cong)
qed

lemma seed_hooks_jars:
  "seed_hooks h a b = (h', r) \<Longrightarrow> jars h' = jars h \<and> next_jar h' = next_jar h"
  by (auto simp: seed_hooks_def store_dict_def split: option.splits if_splits pyval.splits prod.splits)

lemma expand_headers_jars:
  "expand_headers ev h a = (h', r) \<Longrightarrow> jars h' = jars h \<and> next_jar h' = next_jar h"
  by (auto simp: expand_headers_def store_dict_def split: option.splits if_splits pyval.splits prod.splits)

lemma call_jar_frame:
  assumes "call_jar h cks args = (h', r)" "cks \<noteq> PJar sj" "sj < next_jar h"
  shows "jars h' sj = jars h sj \<and> (\<forall>j a d. r = Inr (j, a, d) \<longrightarrow> j \<noteq> sj)"
  using assms
  by (cases cks)
     (auto simp: call_jar_def cookiejar_from_dict_def alloc_jar_def dict_view_def
           split: prod.splits sum.splits option.splits if_splits)

lemma reconcile_cookies_frame:
  assumes "reconcile_cookies s h cks args = (h', r)" "cks \<noteq> PJar sj" "sj < next_jar h"
  shows "jars h' sj = jars h sj"
  using assms(1) call_jar_frame [OF _ assms(2,3), of args]
  by (auto simp: reconcile_cookies_def bindH_def Let_def set_cookies_eq remove_cookies_eq
           split: prod.splits sum.splits option.splits)

lemma request_args_frame:
  assumes "request_args ev s h method url ca = (h', r)" "cookies ca \<noteq> PJar sj" "sj < next_jar h"
  shows "jars h' sj = jars h sj"
  using assms unfolding request_args_def Let_def
  by (auto elim!: bindH_cases dest!: seed_hooks_jars expand_headers_jars
           dest: reconcile_cookies_frame)

lemma request_frame:
  assumes "cookies ca \<noteq> PJar sj" "sj < next_jar h"
  shows "jars (fst (request ev s h method url ca)) sj = jars h sj"
proof -
  obtain h' r where a: "request_args ev s h method url ca = (h', r)"
    by (cases "request_args ev s h method url ca")
  then have "fst (request ev s h method url ca) = h'"
    by (cases r) (simp_all add: request_def bindH_def)
  then show ?thesis using request_args_frame [OF a assms] by simp
qed

section \<open>The jar of the call\<close>

lemma request_args_cookies:
  assumes ra: "request_args ev s h method url ca = (h', Inr args)"
      and cd: "cookies ca = PDict cd"
      and sc: "getattr s ''cookies'' = Inr (PJar sj)"
      and al: "sj < next_jar h"
  shows "dict_item args ''cookies'' = Inr (PJar (next_jar h)) \<and>
         jars h' (next_jar h) =
           filter (\<lambda>c. name c \<notin> set (dead_names cd))
             (fold (\<lambda>c jr. set_cookie jr c) (jars h sj) (jar_of_dict cd)) \<and>
         jars h' sj = jars h sj"
proof -
  from request_args_Inr [OF ra] obtain pf sh h1 hk h2 hd a0 a1 where
    sd: "seed_hooks h (if hooks ca = PNone then PDict [] else hooks ca) sh = (h1, Inr hk)"
    and ex: "expand_headers ev h1 (if headers ca = PNone then PDict [] else headers ca) = (h2, Inr hd)"
    and rc: "reconcile_cookies s h2 (cookies ca) a0 = (h', Inr a1)"
    and m: "merge_attrs h' s attrs a1 = Inr args"
    by blast
  have h2: "jars h2 = jars h" "next_jar h2 = next_jar h"
    using seed_hooks_jars [OF sd] expand_headers_jars [OF ex] by simp_all
  from rc [unfolded reconcile_cookies_Inr cd] obtain h3 j dead sc' cs where
    cj: "call_jar h2 (PDict cd) a0 = (h3, Inr (j, a1, dead))"
    and g: "getattr s ''cookies'' = Inr sc'"
    and it: "iter_cookies h3 sc' = Inr cs"
    and h': "h' = (case dead of None \<Rightarrow> set_cookies h3 j cs
              | Some ns \<Rightarrow> remove_cookies (set_cookies h3 j cs) j ns)"
    by blast
  note c = call_jar_dict [OF cj]
  have sc': "sc' = PJar sj" using g sc by simp
  have ne: "sj \<noteq> next_jar h" using al by simp
  have cs: "cs = jars h sj"
    using it c h2 ne by (simp add: sc' iter_cookies_def)
  have 1: "map_of args ''cookies'' = Some (PJar (next_jar h))"
    using merge_attrs_cookies [OF m] c h2 by (simp add: update_conv')
  have 2: "jars h' (next_jar h) =
           filter (\<lambda>c. name c \<notin> set (dead_names cd))
             (fold (\<lambda>c jr. set_cookie jr c) (jars h sj) (jar_of_dict cd))"
    using c h2 by (simp add: h' cs set_cookies_eq remove_cookies_eq)
  have 3: "jars h' sj = jars h sj"
    using c h2 ne by (simp add: h' cs set_cookies_eq remove_cookies_eq)
  show ?thesis using 1 2 3 by (simp add: dict_item_def)
qed

lemma request_unsent_cookies_example:
  "\<exists>h' r. request env0 sess0 heap1 ''get'' ''http://example.org/''
             (args0\<lparr>cookies := PDict cd, return_response := PBool False\<rparr>) = (h', Inr (Unsent r))"
  by (simp add: model_defs sess0_def heap1_def args0_def env0_def)

text \<open>
  Claim C1. The session's jar holds the cookies \<open>a = 1\<close> and \<open>b = 2\<close> (at any
  domain and path, in either order) and the call passes the cookies \<open>{b: None, c: 3}\<close>.
  Whatever else the call passes and however it ends, the session's jar is afterwards what
  it was. When \<^verbatim>\<open>request\<close> gets as far as its arguments, their jar is a new one, not
  the session's, and holds exactly \<open>c = 3\<close> and \<open>a = 1\<close>; the same holds of the jar
  of the descriptor returned unsent, when the hooks leave the arguments as they are.
\<close>

theorem cookie_reconciliation_example:
  assumes sc: "getattr s ''cookies'' = Inr (PJar sj)"
      and al: "sj < next_jar h"
      and sjar: "jars h sj = [ca, cb] \<or> jars h sj = [cb, ca]"
      and a: "name ca = ''a''" "cvalue ca = PInt 1"
      and b: "name cb = ''b''" "cvalue cb = PInt 2"
      and cd: "cookies c = PDict [(''b'', PNone), (''c'', PInt 3)]"
  shows "jars (fst (request ev s h method url c)) sj = jars h sj \<and>
         (\<forall>h' args. request_args ev s h method url c = (h', Inr args) \<longrightarrow>
            (\<exists>j. dict_item args ''cookies'' = Inr (PJar j) \<and> j \<noteq> sj \<and>
                 jar_items (jars h' j) = [(''c'', PInt 3), (''a'', PInt 1)] \<and>
                 jars h' sj = jars h sj)) \<and>
         (\<forall>h' r. (\<forall>f d. call_hook ev f d = Inr None) \<and>
                 request ev s h method url c = (h', Inr (Unsent r)) \<longrightarrow>
            (\<exists>j. dict_item (req_args r) ''cookies'' = Inr (PJar j) \<and> j \<noteq> sj \<and>
                 jar_items (jars h' j) = [(''c'', PInt 3), (''a'', PInt 1)]))"
proof -
  have ne: "cookies c \<noteq> PJar sj" using cd by simp
  have items: "jar_items (filter (\<lambda>x. name x \<notin> set (dead_names [(''b'', PNone), (''c'', PInt 3)]))
             (fold (\<lambda>x jr. set_cookie jr x) (jars h sj)
                (jar_of_dict [(''b'', PNone), (''c'', PInt 3)])))
          = [(''c'', PInt 3), (''a'', PInt 1)]"
    using sjar a b
    by (auto simp: jar_items_def dead_names_def jar_of_dict_def create_cookie_def same_key_def)
  have built: "\<exists>j. dict_item args ''cookies'' = Inr (PJar j) \<and> j \<noteq> sj \<and>
                 jar_items (jars h' j) = [(''c'', PInt 3), (''a'', PInt 1)] \<and>
                 jars h' sj = jars h sj"
    if ra: "request_args ev s h method url c = (h', Inr args)" for h' args
    using request_args_cookies [OF ra cd sc al] items al by auto
  have unsent: "\<exists>j. dict_item (req_args r) ''cookies'' = Inr (PJar j) \<and> j \<noteq> sj \<and>
                 jar_items (jars h' j) = [(''c'', PInt 3), (''a'', PInt 1)]"
    if noop: "\<forall>f d. call_hook ev f d = Inr None"
      and req: "request ev s h method url c = (h', Inr (Unsent r))" for h' r
  proof -
    from request_Unsent [OF req] obtain args hks where
      ra: "request_args ev s h method url c = (h', Inr args)"
      and d: "dispatch_hook ev h' ''args'' hks args = Inr (req_args r)"
      by blast
    from dispatch_hook_noop [OF noop d] built [OF ra] show ?thesis by auto
  qed
  show ?thesis using request_frame [OF ne al] built unsent by blast
qed

theorem cookie_reconciliation_example_witness:
  "getattr sess0 ''cookies'' = Inr (PJar 0) \<and>
   jars heap1 0 = [cookie_a, cookie_b] \<and>
   jars (fst (request env0 sess0 heap1 ''get'' ''http://example.org/''
                (args0\<lparr>cookies := cookies1\<rparr>))) 0 = [cookie_a, cookie_b] \<and>
   (\<exists>h' args j.
      request_args env0 sess0 heap1 ''get'' ''http://example.org/''
        (args0\<lparr>cookies := cookies1\<rparr>) = (h', Inr args) \<and>
      dict_item args ''cookies'' = Inr (PJar j) \<and> j \<noteq> 0 \<and>
      jar_items (jars h' j) = [(''c'', PInt 3), (''a'', PInt 1)] \<and>
      jars h' 0 = [cookie_a, cookie_b]) \<and>
   (\<exists>h' r j.
      request env0 sess0 heap1 ''get'' ''http://example.org/''
        (args0\<lparr>cookies := cookies1, return_response := PBool False\<rparr>) = (h', Inr (Unsent r)) \<and>
      dict_item (req_args r) ''cookies'' = Inr (PJar j) \<and> j \<noteq> 0 \<and>
      jar_items (jars h' j) = [(''c'', PInt 3), (''a'', PInt 1)])"
proof -
  have sc: "getattr sess0 ''cookies'' = Inr (PJar 0)"
    by (simp add: getattr_def sess0_def)
  have al: "0 < next_jar heap1" by (simp add: heap1_def)
  have sj: "jars heap1 0 = [cookie_a, cookie_b] \<or> jars heap1 0 = [cookie_b, cookie_a]"
    by (simp add: heap1_def)
  have a: "name cookie_a = ''a''" "cvalue cookie_a = PInt 1"
    by (simp_all add: cookie_a_def)
  have b: "name cookie_b = ''b''" "cvalue cookie_b = PInt 2"
    by (simp_all add: cookie_b_def)
  have cd: "cookies (args0\<lparr>cookies := cookies1\<rparr>) = PDict [(''b'', PNone), (''c'', PInt 3)]"
    by (simp add: cookies1_def)
  have cd': "cookies (args0\<lparr>cookies := cookies1, return_response := PBool False\<rparr>)
               = PDict [(''b'', PNone), (''c'', PInt 3)]"
    by (simp add: cookies1_def)
  from request_args_cookies_example [of env0 "[(''b'', PNone), (''c'', PInt 3)]"]
  obtain h' args where
    ra: "request_args env0 sess0 heap1 ''get'' ''http://example.org/''
           (args0\<lparr>cookies := cookies1\<rparr>) = (h', Inr args)"
    by (auto simp: cookies1_def)
  from request_unsent_cookies_example [of "[(''b'', PNone), (''c'', PInt 3)]"]
  obtain h'' r where
    ru: "request env0 sess0 heap1 ''get'' ''http://example.org/''
           (args0\<lparr>cookies := cookies1, return_response := PBool False\<rparr>) = (h'', Inr (Unsent r))"
    by (auto simp: cookies1_def)
  have noop: "\<forall>f d. call_hook env0 f d = Inr None" by (simp add: env0_def)
  have j0: "jars heap1 0 = [cookie_a, cookie_b]" by (simp add: heap1_def)
  note t = cookie_reconciliation_example
             [OF sc al sj a b cd, of env0 "''get''" "''http://example.org/''"]
  note t' = cookie_reconciliation_example
             [OF sc al sj a b cd', of env0 "''get''" "''http://example.org/''"]
  have 1: "jars (fst (request env0 sess0 heap1 ''get'' ''http://example.org/''
                (args0\<lparr>cookies := cookies1\<rparr>))) 0 = [cookie_a, cookie_b]"
    using t j0 by simp
  have 2: "\<exists>h' args j.
      request_args env0 sess0 heap1 ''get'' ''http://example.org/''
        (args0\<lparr>cookies := cookies1\<rparr>) = (h', Inr args) \<and>
      dict_item args ''cookies'' = Inr (PJar j) \<and> j \<noteq> 0 \<and>
      jar_items (jars h' j) = [(''c'', PInt 3), (''a'', PInt 1)] \<and>
      jars h' 0 = [cookie_a, cookie_b]"
    using t ra j0 by auto
  have 3: "\<exists>h' r j.
      request env0 sess0 heap1 ''get'' ''http://example.org/''
        (args0\<lparr>cookies := cookies1, return_response := PBool False\<rparr>) = (h', Inr (Unsent r)) \<and>
      dict_item (req_args r) ''cookies'' = Inr (PJar j) \<and> j \<noteq> 0 \<and>
      jar_items (jars h' j) = [(''c'', PInt 3), (''a'', PInt 1)]"
    using t' ru noop by blast
  show ?thesis using sc j0 1 2 3 by blast
qed

section \<open>Session cookies are applied after the cookies of the call\<close>

lemma set_set_cookie: "set (set_cookie j c) \<subseteq> insert c (set j)"
  by (induction j) auto

lemma in_set_cookie: "c \<in> set (set_cookie j c)"
  by (induction j) auto

lemma keep_set_cookie:
  "x \<in> set j \<Longrightarrow> cookie_key x \<noteq> cookie_key c \<Longrightarrow> x \<in> set (set_cookie j c)"
  by (induction j) (auto simp: same_key_iff)

lemma keys_set_cookie:
  "set (map cookie_key (set_cookie j c)) = insert (cookie_key c) (set (map cookie_key j))"
  by (induction j) (auto simp: same_key_iff)

lemma distinct_set_cookie:
  "distinct (map cookie_key j) \<Longrightarrow> distinct (map cookie_key (set_cookie j c))"
proof (induction j)
  case Nil
  then show ?case by simp
next
  case (Cons x xs)
  show ?case
  proof (cases "same_key x c")
    case True
    then show ?thesis using Cons.prems by (simp add: same_key_iff)
  next
    case False
    have "cookie_key x \<notin> set (map cookie_key (set_cookie xs c))"
      using Cons.prems False unfolding keys_set_cookie by (auto simp: same_key_iff)
    then show ?thesis using Cons False by simp
  qed
qed

lemma distinct_fold_set_cookie:
  "distinct (map cookie_key j) \<Longrightarrow>
   distinct (map cookie_key (fold (\<lambda>c jr. set_cookie jr c) cs j))"
  by (induction cs arbitrary: j) (simp_all add: distinct_set_cookie)

lemma keep_fold_set_cookie:
  "x \<in> set j \<Longrightarrow> cookie_key x \<notin> cookie_key ` set cs \<Longrightarrow>
   x \<in> set (fold (\<lambda>c jr. set_cookie jr c) cs j)"
  by (induction cs arbitrary: j) (auto simp: keep_set_cookie)

lemma in_fold_set_cookie:
  "distinct (map cookie_key cs) \<Longrightarrow> x \<in> set cs \<Longrightarrow>
   x \<in> set (fold (\<lambda>c jr. set_cookie jr c) cs j)"
proof (induction cs arbitrary: j)
  case Nil
  then show ?case by simp
next
  case (Cons c cs)
  show ?case
  proof (cases "x = c")
    case True
    have "cookie_key c \<notin> cookie_key ` set cs" using Cons.prems(1) by auto
    then show ?thesis
      using True keep_fold_set_cookie [OF in_set_cookie [of c j], of cs] by simp
  next
    case False
    then show ?thesis using Cons by auto
  qed
qed

lemma distinct_jar_of_dict: "distinct (map cookie_key (jar_of_dict d))"
proof -
  have "distinct (map cookie_key j) \<Longrightarrow>
        distinct (map cookie_key (fold (\<lambda>(n, v) j. set_cookie j (create_cookie n v)) d j))" for j
    by (induction d arbitrary: j) (auto simp: distinct_set_cookie)
  from this [of "[]"] show ?thesis by (simp add: jar_of_dict_def)
qed

lemma filter_key_single:
  "distinct (map f xs) \<Longrightarrow> x \<in> set xs \<Longrightarrow> filter (\<lambda>y. f y = f x) xs = [x]"
proof (induction xs)
  case Nil
  then show ?case by simp
next
  case (Cons y ys)
  show ?case
  proof (cases "x = y")
    case True
    have "f y \<notin> f ` set ys" using Cons.prems(1) by simp
    then have "\<forall>z \<in> set ys. f z \<noteq> f y" by (metis image_eqI)
    then have "filter (\<lambda>z. f z = f y) ys = []"
      by (simp add: filter_empty_conv)
    then show ?thesis using True by simp
  next
    case False
    then have "x \<in> set ys" using Cons.prems by simp
    moreover have "f y \<noteq> f x" using Cons.prems(1) \<open>x \<in> set ys\<close> by auto
    ultimately show ?thesis using Cons by simp
  qed
qed

lemma dead_names_iff: "n \<in> set (dead_names d) \<longleftrightarrow> map_of d n = Some PNone"
  by (auto simp: dead_names_def dest: map_of_SomeD intro: rev_image_eqI)

text \<open>
  Claim C4. The call passes a cookie dictionary that gives the name \<open>n\<close> a value
  other than None, and the session's jar holds a cookie \<open>x\<close> under the key of the
  cookie made from that entry. Then the jar of the call holds, under that key, the
  session's cookie \<open>x\<close> and nothing else; no cookie of a dead name is left in it,
  whether it came from the call or from the session; and the session's jar is unchanged.
\<close>

theorem session_cookie_wins:
  assumes ra: "request_args ev s h method url c = (h', Inr args)"
      and cd: "cookies c = PDict cd"
      and sc: "getattr s ''cookies'' = Inr (PJar sj)"
      and al: "sj < next_jar h"
      and dk: "distinct (map cookie_key (jars h sj))"
      and call: "map_of cd n = Some v" "v \<noteq> PNone"
      and sess: "x \<in> set (jars h sj)" "cookie_key x = cookie_key (create_cookie n v)"
  shows "\<exists>j. dict_item args ''cookies'' = Inr (PJar j) \<and> j \<noteq> sj \<and>
             filter (\<lambda>y. same_key y (create_cookie n v)) (jars h' j) = [x] \<and>
             (\<forall>m \<in> set (dead_names cd). m \<notin> name ` set (jars h' j)) \<and>
             jars h' sj = jars h sj"
proof -
  let ?J = "fold (\<lambda>c jr. set_cookie jr c) (jars h sj) (jar_of_dict cd)"
  let ?F = "filter (\<lambda>c. name c \<notin> set (dead_names cd)) ?J"
  note r = request_args_cookies [OF ra cd sc al]
  have dJ: "distinct (map cookie_key ?J)"
    by (rule distinct_fold_set_cookie [OF distinct_jar_of_dict])
  have xJ: "x \<in> set ?J"
    by (rule in_fold_set_cookie [OF dk sess(1)])
  have nx: "name x = n" using sess(2) by (simp add: cookie_key_def create_cookie_def)
  have alive: "n \<notin> set (dead_names cd)" using call by (simp add: dead_names_iff)
  have xF: "x \<in> set ?F" using xJ nx alive by simp
  have dF: "distinct (map cookie_key ?F)" using dJ by (simp add: distinct_map_filter)
  have "filter (\<lambda>y. cookie_key y = cookie_key x) ?F = [x]"
    by (rule filter_key_single [OF dF xF])
  then have one: "filter (\<lambda>y. same_key y (create_cookie n v)) ?F = [x]"
    by (simp add: same_key_iff sess(2))
  have gone: "\<forall>m \<in> set (dead_names cd). m \<notin> name ` set ?F" by auto
  show ?thesis
    using r one gone al by auto
qed

theorem session_cookie_wins_witness:
  "\<exists>h' args j.
      request_args env0 sess0 heap1 ''get'' ''http://example.org/''
        (args0\<lparr>cookies := cookies2\<rparr>) = (h', Inr args) \<and>
      map_of [(''b'', PInt 9), (''c'', PNone)] ''b'' = Some (PInt 9) \<and>
      cookie_b \<in> set (jars heap1 0) \<and>
      cookie_key cookie_b = cookie_key (create_cookie ''b'' (PInt 9)) \<and>
      dict_item args ''cookies'' = Inr (PJar j) \<and> j \<noteq> 0 \<and>
      filter (\<lambda>y. same_key y (create_cookie ''b'' (PInt 9))) (jars h' j) = [cookie_b] \<and>
      ''c'' \<notin> name ` set (jars h' j) \<and>
      jars h' 0 = jars heap1 0"
proof -
  from request_args_cookies_example [of env0 "[(''b'', PInt 9), (''c'', PNone)]"]
  obtain h' args where
    ra: "request_args env0 sess0 heap1 ''get'' ''http://example.org/''
           (args0\<lparr>cookies := cookies2\<rparr>) = (h', Inr args)"
    by (auto simp: cookies2_def)
  have cd: "cookies (args0\<lparr>cookies := cookies2\<rparr>) = PDict [(''b'', PInt 9), (''c'', PNone)]"
    by (simp add: cookies2_def)
  have sc: "getattr sess0 ''cookies'' = Inr (PJar 0)"
    by (simp add: getattr_def sess0_def)
  have al: "0 < next_jar heap1" by (simp add: heap1_def)
  have dk: "distinct (map cookie_key (jars heap1 0))"
    by (simp add: heap1_def cookie_key_def cookie_a_def cookie_b_def)
  have call: "map_of [(''b'', PInt 9), (''c'', PNone)] ''b'' = Some (PInt 9)" "PInt 9 \<noteq> PNone"
    by simp_all
  have sess: "cookie_b \<in> set (jars heap1 0)"
     "cookie_key cookie_b = cookie_key (create_cookie ''b'' (PInt 9))"
    by (simp_all add: heap1_def cookie_key_def cookie_b_def create_cookie_def
          default_domain_def default_path_def)
  have dead: "''c'' \<in> set (dead_names [(''b'', PInt 9), (''c'', PNone)])"
    by (simp add: dead_names_def)
  from session_cookie_wins [OF ra cd sc al dk call sess] dead ra call(1) sess
  show ?thesis by blast
qed

section \<open>The hooks of a call\<close>

lemma map_of_setdefault:
  "map_of (setdefault d k v) k' =
     (case map_of d k' of Some w \<Rightarrow> Some w | None \<Rightarrow> if k' = k then Some v else None)"
proof -
  have hk: "has_key d x \<longleftrightarrow> map_of d x \<noteq> None" for x
    by (simp add: has_key_def map_of_eq_None_iff)
  show ?thesis
    by (cases "map_of d k"; cases "map_of d k'") (auto simp: setdefault_def hk map_add_def)
qed

lemma distinct_setdefault: "distinct (map fst d) \<Longrightarrow> distinct (map fst (setdefault d k v))"
  by (auto simp: setdefault_def has_key_def)

lemma map_of_seeded:
  "map_of (seeded its d) k = (case map_of d k of Some v \<Rightarrow> Some v | None \<Rightarrow> map_of its k)"
  unfolding seeded_def
  by (induction its arbitrary: d) (auto simp: map_of_setdefault split: option.splits)

lemma distinct_seeded: "distinct (map fst d) \<Longrightarrow> distinct (map fst (seeded its d))"
  unfolding seeded_def
  by (induction its arbitrary: d) (auto simp: distinct_setdefault)

lemma seed_hooks_dict:
  assumes "seed_hooks h hks (PDict sh) = (h1, Inr hk)" "dict_view h hks = Some ch"
  shows "dict_view h1 hk = Some (seeded sh ch) \<and> has_items hk \<and>
         (\<forall>r. hks \<noteq> PRef r \<longrightarrow> dicts h1 r = dicts h r) \<and>
         (\<forall>r. hk = PRef r \<longrightarrow> hks = PRef r)"
  using assms
  by (cases hks)
     (auto simp: seed_hooks_def dict_view_def store_dict_def seeded_def has_items_def
           split: if_splits)

lemma expand_headers_dicts:
  assumes "expand_headers ev h hdrs = (h', r)" "hdrs \<noteq> PRef a"
  shows "dicts h' a = dicts h a"
  using assms
  by (cases hdrs)
     (auto simp: expand_headers_def store_dict_def dict_view_def split: if_splits)

lemma reconcile_cookies_dicts:
  "reconcile_cookies s h cks args = (h', r) \<Longrightarrow> dicts h' = dicts h"
  by (auto simp: reconcile_cookies_def bindH_def Let_def call_jar_def cookiejar_from_dict_def
        alloc_jar_def set_cookies_eq remove_cookies_eq
        split: prod.splits sum.splits option.splits pyval.splits if_splits)

text \<open>
  Claim C7. The call's hooks are a dictionary \<open>ch\<close> (or absent, which is the empty
  one) and the session's hooks a dictionary \<open>sh\<close>. The seeding of lines 239 to 241
  leaves the call's hooks with the entry of \<open>ch\<close> for every event \<open>ch\<close> has, and
  with the entry of \<open>sh\<close> for every other event. The hooks that \<^verbatim>\<open>request\<close>
  resolves hold, for an event that \<open>ch\<close> registers, the hook of \<open>ch\<close>, whatever
  \<open>sh\<close> has for it; for an event that only \<open>sh\<close> registers, the hook of
  \<open>sh\<close>; and nothing for an event neither registers. So hooks under different event
  names, some from the call and some from the session, are all there. A hook is a
  callable or a sequence of callables, never None.
\<close>

theorem hooks_resolution:
  assumes ra: "request_args ev s h method url c = (h', Inr args)"
      and ch: "dict_view h (if hooks c = PNone then PDict [] else hooks c) = Some ch"
      and dch: "distinct (map fst ch)"
      and sh: "getattr s ''hooks'' = Inr (PDict sh)"
      and na: "\<forall>r. hooks c = PRef r \<longrightarrow> headers c \<noteq> PRef r"
  shows "(\<exists>h1 hk. seed_hooks h (if hooks c = PNone then PDict [] else hooks c) (PDict sh)
                    = (h1, Inr hk) \<and>
                  dict_view h1 hk = Some (seeded sh ch)) \<and>
         (\<forall>k. map_of (seeded sh ch) k =
                (case map_of ch k of Some v \<Rightarrow> Some v | None \<Rightarrow> map_of sh k)) \<and>
         (\<exists>rh. dict_item args ''hooks'' = Inr (PDict rh) \<and>
           (\<forall>k v. map_of ch k = Some v \<and> v \<noteq> PNone \<longrightarrow> map_of rh k = Some v) \<and>
           (\<forall>k v. map_of ch k = None \<and> map_of sh k = Some v \<and> v \<noteq> PNone \<longrightarrow>
                  map_of rh k = Some v) \<and>
           (\<forall>k. map_of ch k = None \<and> map_of sh k = None \<longrightarrow> map_of rh k = None))"
proof -
  let ?hooks' = "if hooks c = PNone then PDict [] else hooks c"
  let ?headers' = "if headers c = PNone then PDict [] else headers c"
  from request_args_Inr [OF ra] sh obtain pf h1 hk h2 hd a0 a1 where
    sd: "seed_hooks h ?hooks' (PDict sh) = (h1, Inr hk)"
    and ex: "expand_headers ev h1 ?headers' = (h2, Inr hd)"
    and b: "build_args s (upper method) url
             (c\<lparr>data := (if data c = PNone then PList [] else data c),
                 files := (if files c = PNone then PList [] else files c),
                 headers := hd,
                 params := (if params c = PNone then PDict [] else params c),
                 hooks := hk, prefetch := pf\<rparr>) = Inr a0"
    and rc: "reconcile_cookies s h2 (cookies c) a0 = (h', Inr a1)"
    and m: "merge_attrs h' s attrs a1 = Inr args"
    by auto
  note s1 = seed_hooks_dict [OF sd ch]
  have a0: "dict_get a0 ''hooks'' = hk"
    using build_args_hooks [OF b] s1 by simp
  have a1: "dict_get a1 ''hooks'' = hk"
    using reconcile_cookies_other [OF rc, of "''hooks''"] a0 by (simp add: dict_get_def)
  have view: "dict_view h' hk = Some (seeded sh ch)"
  proof (cases hk)
    case (PRef r)
    then have "hooks c = PRef r" using s1 by (auto split: if_splits)
    then have "?headers' \<noteq> PRef r" using na by auto
    from expand_headers_dicts [OF ex this] reconcile_cookies_dicts [OF rc] s1 PRef
    show ?thesis by (simp add: dict_view_def)
  qed (use s1 in \<open>simp_all add: dict_view_def\<close>)
  have sess: "getattr_default s ''hooks'' PNone = PDict sh"
    using sh by (auto simp: getattr_def getattr_default_def split: option.splits)
  from merge_attrs_at [OF m, of "''hooks''"] a1 sess obtain v where
    v: "merge_kwargs h' hk (PDict sh) = Inr v" "map_of args ''hooks'' = Some v"
    by (auto simp: attrs_def)
  have dv: "dict_view h' (PDict sh) = Some sh" by (simp add: dict_view_def)
  from merge_kwargs_overlay [OF view dv distinct_seeded [OF dch]] v(1) obtain rh where
    rh: "v = PDict rh"
        "\<forall>k. map_of rh k = (case map_of (seeded sh ch) k of
                              Some w \<Rightarrow> if w = PNone then None else Some w
                            | None \<Rightarrow> map_of sh k)"
    by auto
  have "dict_item args ''hooks'' = Inr (PDict rh)"
    using v(2) rh(1) by (simp add: dict_item_def)
  moreover have "\<forall>k v. map_of ch k = Some v \<and> v \<noteq> PNone \<longrightarrow> map_of rh k = Some v"
    using rh(2) by (simp add: map_of_seeded)
  moreover have "\<forall>k v. map_of ch k = None \<and> map_of sh k = Some v \<and> v \<noteq> PNone \<longrightarrow>
                  map_of rh k = Some v"
    using rh(2) by (simp add: map_of_seeded)
  moreover have "\<forall>k. map_of ch k = None \<and> map_of sh k = None \<longrightarrow> map_of rh k = None"
    using rh(2) by (simp add: map_of_seeded)
  ultimately have resolved:
    "\<exists>rh. dict_item args ''hooks'' = Inr (PDict rh) \<and>
           (\<forall>k v. map_of ch k = Some v \<and> v \<noteq> PNone \<longrightarrow> map_of rh k = Some v) \<and>
           (\<forall>k v. map_of ch k = None \<and> map_of sh k = Some v \<and> v \<noteq> PNone \<longrightarrow>
                  map_of rh k = Some v) \<and>
           (\<forall>k. map_of ch k = None \<and> map_of sh k = None \<longrightarrow> map_of rh k = None)"
    by blast
  have seeding: "\<exists>h1 hk. seed_hooks h ?hooks' (PDict sh) = (h1, Inr hk) \<and>
                  dict_view h1 hk = Some (seeded sh ch)"
    using sd s1 by blast
  show ?thesis using seeding resolved by (simp add: map_of_seeded)
qed

theorem hooks_resolution_witness:
  "\<exists>h' args rh.
      request_args env0 sess0 heap1 ''get'' ''http://example.org/''
        (args0\<lparr>hooks := hooks1\<rparr>) = (h', Inr args) \<and>
      getattr sess0 ''hooks'' = Inr (PDict [(''response'', PFun 1), (''post_request'', PFun 4)]) \<and>
      dict_item args ''hooks'' = Inr (PDict rh) \<and>
      map_of rh ''response'' = Some (PFun 2) \<and>
      map_of rh ''pre_request'' = Some (PFun 3) \<and>
      map_of rh ''post_request'' = Some (PFun 4) \<and>
      map_of rh ''args'' = None"
proof -
  let ?ch = "[(''response'', PFun 2), (''pre_request'', PFun 3)]"
  let ?sh = "[(''response'', PFun 1), (''post_request'', PFun 4)]"
  from request_args_hooks_example [of env0] obtain h' args where
    ra: "request_args env0 sess0 heap1 ''get'' ''http://example.org/''
           (args0\<lparr>hooks := hooks1\<rparr>) = (h', Inr args)"
    by blast
  have ch: "dict_view heap1 (if hooks (args0\<lparr>hooks := hooks1\<rparr>) = PNone then PDict []
                              else hooks (args0\<lparr>hooks := hooks1\<rparr>)) = Some ?ch"
    by (simp add: hooks1_def dict_view_def)
  have dch: "distinct (map fst ?ch)" by simp
  have sh: "getattr sess0 ''hooks'' = Inr (PDict ?sh)"
    by (simp add: getattr_def sess0_def)
  have na: "\<forall>r. hooks (args0\<lparr>hooks := hooks1\<rparr>) = PRef r \<longrightarrow>
                headers (args0\<lparr>hooks := hooks1\<rparr>) \<noteq> PRef r"
    by (simp add: hooks1_def)
  from hooks_resolution [OF ra ch dch sh na] obtain rh where
    rh: "dict_item args ''hooks'' = Inr (PDict rh)"
        "\<forall>k v. map_of ?ch k = Some v \<and> v \<noteq> PNone \<longrightarrow> map_of rh k = Some v"
        "\<forall>k v. map_of ?ch k = None \<and> map_of ?sh k = Some v \<and> v \<noteq> PNone \<longrightarrow> map_of rh k = Some v"
        "\<forall>k. map_of ?ch k = None \<and> map_of ?sh k = None \<longrightarrow> map_of rh k = None"
    by blast
  have 1: "map_of rh ''response'' = Some (PFun 2)" using rh(2) by simp
  have 2: "map_of rh ''pre_request'' = Some (PFun 3)" using rh(2) by simp
  have 3: "map_of rh ''post_request'' = Some (PFun 4)" using rh(3) by simp
  have 4: "map_of rh ''args'' = None" using rh(4) by simp
  show ?thesis using ra sh rh(1) 1 2 3 4 by blast
qed

section \<open>The dictionaries of the caller\<close>

lemma update_fresh_append:
  "k \<notin> fst ` set pre \<Longrightarrow> AList.update k w (pre @ (k, v) # suf) = pre @ (k, w) # suf"
  by (induction pre) auto

lemma expand_fold_map:
  assumes "distinct (map fst d)"
  shows "fold (\<lambda>(k, v) acc. AList.update k (f v) acc) d d = map (\<lambda>(k, v). (k, f v)) d"
proof -
  have "fold (\<lambda>(k, v) acc. AList.update k (f v) acc) suf (map (\<lambda>(k, v). (k, f v)) pre @ suf)
        = map (\<lambda>(k, v). (k, f v)) (pre @ suf)"
    if "distinct (map fst (pre @ suf))" for pre suf
    using that
  proof (induction suf arbitrary: pre)
    case Nil
    then show ?case by simp
  next
    case (Cons kv suf)
    obtain k v where kv: "kv = (k, v)" by (cases kv)
    have fresh: "k \<notin> fst ` set (map (\<lambda>(k, v). (k, f v)) pre)"
      using Cons.prems kv by force
    have d: "distinct (map fst ((pre @ [(k, v)]) @ suf))" using Cons.prems kv by simp
    show ?case
      using Cons.IH [OF d] update_fresh_append [OF fresh, of "f v" v suf]
      by (simp add: kv)
  qed
  from this [of "[]" d] assms show ?thesis by simp
qed

lemma seed_hooks_ref:
  "seed_hooks h (PRef rk) (PDict sh) =
     (h\<lparr>dicts := (dicts h)(rk := seeded sh (dicts h rk))\<rparr>, Inr (PRef rk))"
  by (simp add: seed_hooks_def dict_view_def store_dict_def seeded_def)

lemma expand_headers_ref:
  "expand_headers ev h (PRef rh) =
     (h\<lparr>dicts := (dicts h)(rh := fold (\<lambda>(k, v) acc. AList.update k (header_expand ev v) acc)
                                      (dicts h rh) (dicts h rh))\<rparr>, Inr (PRef rh))"
proof (cases "dicts h rh = []")
  case True
  then have "(dicts h)(rh := []) = dicts h" by (auto simp: fun_upd_idem)
  then show ?thesis
    using True by (simp add: expand_headers_def truthy_def dict_view_def store_dict_def)
next
  case False
  then show ?thesis
    by (simp add: expand_headers_def truthy_def dict_view_def store_dict_def)
qed

lemma request_args_dicts_tail:
  assumes "bindH (h2, b) (\<lambda>h args. bindH (reconcile_cookies s h cks args)
             (\<lambda>h args'. (h, m h args'))) = (h', r)"
  shows "dicts h' = dicts h2"
  using assms
  by (auto elim!: bindH_cases dest: reconcile_cookies_dicts)

text \<open>
  Claim C10. The caller passes its own headers dictionary (at address \<open>rh\<close>) and its
  own hooks dictionary (at address \<open>rk\<close>) to a session that has hooks and a prefetch
  setting. When \<^verbatim>\<open>request\<close> is over, however it ended, the caller's hooks dictionary
  has gained every event of the session's hooks that it did not have, and keeps its own
  entries; and every value of the caller's headers dictionary has been replaced by its
  expanded form.
\<close>

theorem caller_dicts_mutated:
  assumes hd: "headers c = PRef rh" and hk: "hooks c = PRef rk" and ne: "rh \<noteq> rk"
      and sh: "getattr s ''hooks'' = Inr (PDict sh)"
      and pf: "getattr s ''prefetch'' = Inr p"
      and dh: "distinct (map fst (dicts h rh))"
  shows "dicts (fst (request ev s h method url c)) rk = seeded sh (dicts h rk) \<and>
         (\<forall>k. map_of (dicts (fst (request ev s h method url c)) rk) k =
                 (case map_of (dicts h rk) k of Some cb \<Rightarrow> Some cb | None \<Rightarrow> map_of sh k)) \<and>
         dicts (fst (request ev s h method url c)) rh =
           map (\<lambda>(k, v). (k, header_expand ev v)) (dicts h rh)"
proof -
  obtain h' r where a: "request_args ev s h method url c = (h', r)"
    by (cases "request_args ev s h method url c")
  then have f: "fst (request ev s h method url c) = h'"
    by (cases r) (simp_all add: request_def bindH_def)
  let ?h1 = "h\<lparr>dicts := (dicts h)(rk := seeded sh (dicts h rk))\<rparr>"
  let ?h2 = "?h1\<lparr>dicts := (dicts ?h1)(rh := fold (\<lambda>(k, v) acc. AList.update k (header_expand ev v) acc)
                                      (dicts ?h1 rh) (dicts ?h1 rh))\<rparr>"
  have pre: "(if prefetch c \<noteq> PNone then Inr (prefetch c) else getattr s ''prefetch'')
               = Inr (if prefetch c \<noteq> PNone then prefetch c else p)"
    using pf by simp
  from a have "dicts h' = dicts ?h2"
    unfolding request_args_def Let_def hd hk pre sh
    apply (simp only: bindH_ok pyval.distinct if_False seed_hooks_ref expand_headers_ref)
    apply (erule request_args_dicts_tail)
    done
  then show ?thesis
    using ne dh by (simp add: f expand_fold_map map_of_seeded)
qed

theorem caller_dicts_mutated_witness:
  "headers (args0\<lparr>headers := PRef 0, hooks := PRef 1\<rparr>) = PRef 0 \<and>
   hooks (args0\<lparr>headers := PRef 0, hooks := PRef 1\<rparr>) = PRef 1 \<and>
   dicts heap1 0 = [(''Accept'', PList [PStr ''a'', PStr ''b''])] \<and>
   dicts heap1 1 = [(''response'', PFun 2), (''pre_request'', PFun 3)] \<and>
   dicts (fst (request env0 sess0 heap1 ''get'' ''http://example.org/''
                 (args0\<lparr>headers := PRef 0, hooks := PRef 1\<rparr>))) 1
     = [(''response'', PFun 2), (''pre_request'', PFun 3), (''post_request'', PFun 4)] \<and>
   dicts (fst (request env0 sess0 heap1 ''get'' ''http://example.org/''
                 (args0\<lparr>headers := PRef 0, hooks := PRef 1\<rparr>))) 0
     = [(''Accept'', PStr ''a; b'')]"
proof -
  let ?c = "args0\<lparr>headers := PRef 0, hooks := PRef 1\<rparr>"
  have hd: "headers ?c = PRef 0" and hk: "hooks ?c = PRef 1" by simp_all
  have ne: "(0::nat) \<noteq> 1" by simp
  have sh: "getattr sess0 ''hooks'' = Inr (PDict [(''response'', PFun 1), (''post_request'', PFun 4)])"
    by (simp add: getattr_def sess0_def)
  have pf: "getattr sess0 ''prefetch'' = Inr (PBool True)"
    by (simp add: getattr_def sess0_def)
  have dh: "distinct (map fst (dicts heap1 0))" by (simp add: heap1_def)
  from caller_dicts_mutated [OF hd hk ne sh pf dh, of env0 "''get''" "''http://example.org/''"]
  show ?thesis
    by (simp add: heap1_def env0_def seeded_def setdefault_def has_key_def)
qed

section \<open>Transport failures and safe mode\<close>

text \<open>
  Claim C5. A verb method passes keyword arguments that \<^verbatim>\<open>request\<close> accepts, the
  request gets as far as the send, and the send fails with a transport error. With safe
  mode engaged the call returns, without raising, a response that carries that very
  error; with safe mode disengaged the call raises that error. Every verb method is
  \<open>call_request\<close> with its method name and keyword arguments; \<^verbatim>\<open>get\<close> is spelled
  out.
\<close>

theorem transport_failure_safe_mode:
  assumes kw: "bind_kwargs kwargs = Inr ca"
      and ra: "request_args ev s h method url ca = (h', Inr args)"
      and hk: "dict_item args ''hooks'' = Inr hks"
      and dh: "dispatch_hook ev h' ''args'' hks args = Inr args'"
      and rr: "truthy h' (return_response ca)"
      and sf: "send ev \<lparr>req_args = args', req_session = s\<rparr> (dict_get args' ''prefetch'')
                 = Inl (TransportError m)"
  shows "call_request ev s h method url kwargs =
           (h', if safe_mode ev
                then Inr (Sent \<lparr>resp_error = Some (TransportError m), payload = PNone\<rparr>)
                else Inl (TransportError m)) \<and>
         (\<forall>kw. method = ''get'' \<and> kwargs = setdefault kw ''allow_redirects'' (PBool True) \<longrightarrow>
            get ev s h url kw =
              (h', if safe_mode ev
                   then Inr (Sent \<lparr>resp_error = Some (TransportError m), payload = PNone\<rparr>)
                   else Inl (TransportError m)))"
proof -
  have sr: "send_request ev \<lparr>req_args = args', req_session = s\<rparr> args' =
          (if safe_mode ev then Inr \<lparr>resp_error = Some (TransportError m), payload = PNone\<rparr>
           else Inl (TransportError m))"
    by (simp add: send_request_def catch_exceptions_if_in_safe_mode_def sf)
  have "finish_request ev s h' args (return_response ca) =
          (if safe_mode ev
           then Inr (Sent \<lparr>resp_error = Some (TransportError m), payload = PNone\<rparr>)
           else Inl (TransportError m))"
    by (simp add: finish_request_def bindE_def hk dh rr sr Let_def)
  then have "call_request ev s h method url kwargs =
           (h', if safe_mode ev
                then Inr (Sent \<lparr>resp_error = Some (TransportError m), payload = PNone\<rparr>)
                else Inl (TransportError m))"
    by (simp add: call_request_def kw request_def bindH_def ra)
  then show ?thesis by (auto simp: get_def)
qed

theorem transport_failure_safe_mode_witness:
  "(\<exists>h'. get env0 sess0 heap1 ''http://example.org/'' [] =
     (h', Inr (Sent \<lparr>resp_error = Some (TransportError ''connection refused''),
                      payload = PNone\<rparr>))) \<and>
   (\<exists>h'. get env1 sess0 heap1 ''http://example.org/'' [] =
     (h', Inl (TransportError ''connection refused'')))"
proof -
  let ?kw = "setdefault [] ''allow_redirects'' (PBool True)"
  have kw: "bind_kwargs ?kw = Inr args0"
    by (simp add: bind_kwargs_def kwarg_def param_names_def args0_def setdefault_def has_key_def)
  have rr: "truthy h' (return_response args0)" for h'
    by (simp add: truthy_def args0_def)
  have "\<exists>h'. get ev sess0 heap1 ''http://example.org/'' [] =
          (h', if safe_mode ev
               then Inr (Sent \<lparr>resp_error = Some (TransportError ''connection refused''),
                                payload = PNone\<rparr>)
               else Inl (TransportError ''connection refused''))"
    if noop: "\<forall>f d. call_hook ev f d = Inr None"
      and down: "\<forall>r p. send ev r p = Inl (TransportError ''connection refused'')" for ev
  proof -
    from request_args_example [of ev] obtain h' args hks where
      ra: "request_args ev sess0 heap1 ''get'' ''http://example.org/'' args0 = (h', Inr args)"
      and hk: "dict_item args ''hooks'' = Inr (PDict hks)"
      and na: "map_of hks ''args'' = None"
      by blast
    have dh: "dispatch_hook ev h' ''args'' (PDict hks) args = Inr args"
      by (simp add: dispatch_hook_def dict_view_def na)
    have sf: "send ev \<lparr>req_args = args, req_session = sess0\<rparr> (dict_get args ''prefetch'')
                 = Inl (TransportError ''connection refused'')"
      using down by simp
    from transport_failure_safe_mode [OF kw ra hk dh rr sf] show ?thesis by blast
  qed
  from this [of env0] this [of env1] show ?thesis
    by (simp add: env0_def env1_def)
qed

end
